theory Spec2Isabelle
  imports Main "HOL-Library.Sublist"
begin

section \<open>Diagnostics and the outcome of running a task\<close>

text \<open>
  Modelled from the spec: the Diagnostic of the data model (\<open>result.Issue\<close> is not among
  the sources). \<open>FromLinter\<close> is the source-task id, \<open>FilePath\<close> stands for the
  method \<open>FilePath()\<close>.
\<close>

record issue =
  FromLinter :: string
  Text :: string
  Severity :: string
  FilePath :: string
  Line :: nat
  Column :: nat

text \<open>
  The value a task panicked with: an \<open>*errorutil.PanicError\<close> (with its message) or any
  other value (as \<open>%s\<close> prints it).
\<close>

datatype panic_data = PanicError string | PanicValue string

text \<open>
  The errors of the runner: the error a linter returns (opaque), the two errors that
  \<open>runLinterSafe\<close> makes of a recovered panic, the error \<open>Run\<close> adds for a linter that
  failed, and the result of \<open>errors.Join\<close>.
\<close>

datatype lint_error =
    LinterFailed string
  | NamedPanic string string
  | PanicOccurred string
  | CantRunLinter string
  | Joined "lint_error list"

text \<open>
  \<open>lc.Linter.Run(ctx, lintCtx)\<close> either returns \<open>(issues, err)\<close> or panics; in both
  cases it may have changed the shared \<open>lintCtx\<close>.
\<close>

datatype run_outcome = Returned "issue list" "lint_error option" | Panicked panic_data

section \<open>Task registry and linters configuration\<close>

text \<open>
  Modelled from the spec: the Task descriptor of the data model (\<open>linter.Config\<close> is
  not among the sources). \<open>Name\<close> is the unique id, \<open>AlternativeNames\<close> the aliases,
  \<open>InPresets\<close> the preset membership, \<open>DoesChangeTypes\<close> the flag
  "mutates shared analysis state", \<open>Linter_Run\<close> the task's \<open>execute\<close> on the shared
  analysis context \<open>'c\<close> (\<open>lc.Linter.Run\<close>). \<open>lc.Name()\<close> and \<open>lc.Linter.Name()\<close> are
  the one name of the task.
\<close>

record 'c linter_config =
  Name :: string
  AlternativeNames :: "string list"
  InPresets :: "string list"
  EnabledByDefault :: bool
  IsSlow :: bool
  DoesChangeTypes :: bool
  Linter_Run :: "'c \<Rightarrow> 'c \<times> run_outcome"

text \<open>\<open>config.Linters\<close> (pkg/config/linters.go).\<close>

record Linters =
  Enable :: "string list"
  Disable :: "string list"
  Anduril :: bool
  EnableAll :: bool
  DisableAll :: bool
  Fast :: bool
  Presets :: "string list"

text \<open>
  Modelled from the spec: the Task Registry (\<open>Manager\<close> is not among the sources).
  \<open>enumerate()\<close> is the list of all known descriptors; \<open>lookup(nameOrAlias)\<close> returns the
  descriptors that carry the name as id or alias, the empty list (Go: nil) when there is none.
\<close>

record 'c Manager =
  GetAllSupportedLinterConfigs :: "'c linter_config list"

definition AllNames :: "'c linter_config \<Rightarrow> string list" where
  "AllNames lc = Name lc # AlternativeNames lc"

definition GetLinterConfigs :: "'c Manager \<Rightarrow> string \<Rightarrow> 'c linter_config list" where
  "GetLinterConfigs m name =
     filter (\<lambda>lc. name \<in> set (AllNames lc)) (GetAllSupportedLinterConfigs m)"

definition GetAllLinterConfigsForPreset :: "'c Manager \<Rightarrow> string \<Rightarrow> 'c linter_config list" where
  "GetAllLinterConfigsForPreset m p =
     filter (\<lambda>lc. p \<in> set (InPresets lc)) (GetAllSupportedLinterConfigs m)"

definition GetAllEnabledByDefaultLinters :: "'c Manager \<Rightarrow> 'c linter_config list" where
  "GetAllEnabledByDefaultLinters m = filter EnabledByDefault (GetAllSupportedLinterConfigs m)"

definition IsSlowLinter :: "'c linter_config \<Rightarrow> bool" where
  "IsSlowLinter lc = IsSlow lc"

type_synonym 'c linters_set = "string \<rightharpoonup> 'c linter_config"

text \<open>
  Modelled from the spec: \<open>linterConfigsToMap\<close> keys every descriptor of the list by its id
  ("a mapping from task id to Task").
\<close>

definition put_linter :: "'c linter_config \<Rightarrow> 'c linters_set \<Rightarrow> 'c linters_set" where
  "put_linter lc s = s(Name lc \<mapsto> lc)"

definition delete_linter :: "'c linter_config \<Rightarrow> 'c linters_set \<Rightarrow> 'c linters_set" where
  "delete_linter lc s = s(Name lc := None)"

definition linterConfigsToMap :: "'c linter_config list \<Rightarrow> 'c linters_set" where
  "linterConfigsToMap lcs = fold put_linter lcs Map.empty"

section \<open>EnabledSet.build (pkg/lint/lintersdb/enabled_set.go)\<close>

text \<open>The \<open>switch\<close> at the head of \<open>build\<close>: the initial value of \<open>resultLintersSet\<close>.\<close>

definition build_seed :: "'c Manager \<Rightarrow> Linters \<Rightarrow> 'c linter_config list \<Rightarrow> 'c linters_set" where
  "build_seed m lcfg enabledByDefaultLinters =
     (if length (Presets lcfg) \<noteq> 0 then Map.empty
      else if EnableAll lcfg then linterConfigsToMap (GetAllSupportedLinterConfigs m)
      else if DisableAll lcfg then Map.empty
      else linterConfigsToMap enabledByDefaultLinters)"

text \<open>\<open>for _, p := range lcfg.Presets { for _, lc := range ...ForPreset(p) { set[lc.Name()] = lc } }\<close>\<close>

definition build_presets :: "'c Manager \<Rightarrow> Linters \<Rightarrow> 'c linters_set \<Rightarrow> 'c linters_set" where
  "build_presets m lcfg s =
     fold (\<lambda>p. fold put_linter (GetAllLinterConfigsForPreset m p)) (Presets lcfg) s"

text \<open>\<open>if lcfg.Fast { for name, lc := range set { if lc.IsSlowLinter() { delete(set, name) } } }\<close>\<close>

definition build_fast :: "Linters \<Rightarrow> 'c linters_set \<Rightarrow> 'c linters_set" where
  "build_fast lcfg s =
     (if Fast lcfg
      then (\<lambda>name. case s name of
                      None \<Rightarrow> None
                    | Some lc \<Rightarrow> if IsSlowLinter lc then None else Some lc)
      else s)"

text \<open>\<open>for _, name := range lcfg.Enable { for _, lc := range GetLinterConfigs(name) { set[lc.Name()] = lc } }\<close>\<close>

definition build_enable :: "'c Manager \<Rightarrow> Linters \<Rightarrow> 'c linters_set \<Rightarrow> 'c linters_set" where
  "build_enable m lcfg s =
     fold (\<lambda>name. fold put_linter (GetLinterConfigs m name)) (Enable lcfg) s"

text \<open>\<open>for _, name := range lcfg.Disable { for _, lc := range GetLinterConfigs(name) { delete(set, lc.Name()) } }\<close>\<close>

definition build_disable :: "'c Manager \<Rightarrow> Linters \<Rightarrow> 'c linters_set \<Rightarrow> 'c linters_set" where
  "build_disable m lcfg s =
     fold (\<lambda>name. fold delete_linter (GetLinterConfigs m name)) (Disable lcfg) s"

text \<open>
  The custom linters of \<open>cfg.LintersSettings.Custom\<close>. Loading a plugin is outside the
  sources' reach, so the loader \<open>loadCustomLinterConfig\<close> is a parameter that returns
  either a load error (only logged) or the loaded descriptor. The Go map is iterated in
  an unspecified order; the model takes the entries as a list in the order of iteration.
\<close>

type_synonym ('cs, 'c) custom_loader = "string \<Rightarrow> 'cs \<Rightarrow> string + 'c linter_config"

definition build_custom ::
  "('cs, 'c) custom_loader \<Rightarrow> (string \<times> 'cs) list \<Rightarrow> 'c linters_set \<Rightarrow> 'c linters_set" where
  "build_custom loadCustomLinterConfig custom s =
     fold (\<lambda>(name, settings) s'.
             case loadCustomLinterConfig name settings of
               Inl err \<Rightarrow> s'
             | Inr linterConfig \<Rightarrow> put_linter linterConfig s')
          custom s"

definition build ::
  "'c Manager \<Rightarrow> ('cs, 'c) custom_loader \<Rightarrow> (string \<times> 'cs) list \<Rightarrow> Linters \<Rightarrow> 'c linter_config list
     \<Rightarrow> 'c linters_set" where
  "build m loadCustomLinterConfig custom lcfg enabledByDefaultLinters =
     build_custom loadCustomLinterConfig custom
       (build_disable m lcfg
         (build_enable m lcfg
           (build_fast lcfg
             (build_presets m lcfg
               (build_seed m lcfg enabledByDefaultLinters)))))"

section \<open>Validator (package lintersdb)\<close>

text \<open>
  The Go functions return \<open>error\<close> values built with \<open>fmt.Errorf\<close> and \<open>errors.New\<close>;
  each message of the source is one constructor, carrying the values the message prints.
\<close>

datatype config_error =
    UnknownLinters "string list"
  | NoSuchPreset string
  | PresetsIncompatibleWithEnableAll
  | EnableAllAndDisableAllCombined
  | AllLintersDisabled
  | DisableAllAndDisable string
  | EnableAllAndEnable string
  | DisabledAndEnabledAtOneMoment string

definition validateLintersNames :: "'c Manager \<Rightarrow> Linters \<Rightarrow> config_error option" where
  "validateLintersNames m cfg =
     (let allNames = Enable cfg @ Disable cfg;
          unknownNames = filter (\<lambda>name. GetLinterConfigs m name = []) allNames
      in if length unknownNames > 0 then Some (UnknownLinters unknownNames) else None)"

text \<open>\<open>AllPresets()\<close> is not among the sources: the known preset names are a parameter.\<close>

definition validatePresets :: "string list \<Rightarrow> Linters \<Rightarrow> config_error option" where
  "validatePresets AllPresets cfg =
     (case find (\<lambda>p. p \<notin> set AllPresets) (Presets cfg) of
        Some p \<Rightarrow> Some (NoSuchPreset p)
      | None \<Rightarrow>
          if length (Presets cfg) \<noteq> 0 \<and> EnableAll cfg
          then Some PresetsIncompatibleWithEnableAll else None)"

definition validateAllDisableEnableOptions :: "Linters \<Rightarrow> config_error option" where
  "validateAllDisableEnableOptions cfg =
     (if EnableAll cfg \<and> DisableAll cfg then Some EnableAllAndDisableAllCombined
      else if DisableAll cfg \<and> length (Enable cfg) = 0 \<and> length (Presets cfg) = 0
        then Some AllLintersDisabled
      else if DisableAll cfg \<and> length (Disable cfg) \<noteq> 0
        then Some (DisableAllAndDisable (hd (Disable cfg)))
      else if EnableAll cfg \<and> length (Enable cfg) \<noteq> 0 \<and> \<not> Fast cfg
        then Some (EnableAllAndEnable (hd (Enable cfg)))
      else None)"

definition validateDisabledAndEnabledAtOneMoment :: "Linters \<Rightarrow> config_error option" where
  "validateDisabledAndEnabledAtOneMoment cfg =
     (case find (\<lambda>name. name \<in> set (Enable cfg)) (Disable cfg) of
        Some name \<Rightarrow> Some (DisabledAndEnabledAtOneMoment name)
      | None \<Rightarrow> None)"

text \<open>\<open>for _, v := range validators { if err := v(cfg); err != nil { return err } }\<close>\<close>

fun run_validators :: "(Linters \<Rightarrow> config_error option) list \<Rightarrow> Linters \<Rightarrow> config_error option" where
  "run_validators [] cfg = None"
| "run_validators (v # vs) cfg =
     (case v cfg of Some err \<Rightarrow> Some err | None \<Rightarrow> run_validators vs cfg)"

definition validateEnabledDisabledLintersConfig ::
  "string list \<Rightarrow> 'c Manager \<Rightarrow> Linters \<Rightarrow> config_error option" where
  "validateEnabledDisabledLintersConfig AllPresets m cfg =
     run_validators
       [validateLintersNames m,
        validatePresets AllPresets,
        validateAllDisableEnableOptions,
        validateDisabledAndEnabledAtOneMoment] cfg"


subsection \<open>The contract of the resolver, in the words of the specification\<close>






text \<open>The seed set in the words of the specification, as a set of task ids.\<close>

definition seed_tasks :: "'c Manager \<Rightarrow> Linters \<Rightarrow> string set" where
  "seed_tasks m lcfg =
     (if Presets lcfg \<noteq> [] then {}
      else if EnableAll lcfg then Name ` set (GetAllSupportedLinterConfigs m)
      else if DisableAll lcfg then {}
      else Name ` {lc \<in> set (GetAllSupportedLinterConfigs m). EnabledByDefault lc})"

subsection \<open>A small registry and configurations over it\<close>

text \<open>
  Three tasks: \<open>govet\<close> with the alias \<open>vet\<close>, enabled by default and slow; \<open>errcheck\<close>,
  enabled by default; \<open>gocyclo\<close>. None belongs to a preset, and each returns no issue.
\<close>

definition example_linter :: "string \<Rightarrow> string list \<Rightarrow> bool \<Rightarrow> bool \<Rightarrow> unit linter_config" where
  "example_linter name aliases byDefault slow =
     \<lparr>Name = name, AlternativeNames = aliases, InPresets = [], EnabledByDefault = byDefault,
      IsSlow = slow, DoesChangeTypes = False, Linter_Run = (\<lambda>c. (c, Returned [] None))\<rparr>"

definition example_manager :: "unit Manager" where
  "example_manager =
     \<lparr>GetAllSupportedLinterConfigs =
        [example_linter ''govet'' [''vet''] True True,
         example_linter ''errcheck'' [] True False,
         example_linter ''gocyclo'' [] False False]\<rparr>"

definition example_linters :: "string list \<Rightarrow> string list \<Rightarrow> bool \<Rightarrow> bool \<Rightarrow> bool \<Rightarrow> Linters" where
  "example_linters enable disable enableAll disableAll fast =
     \<lparr>Enable = enable, Disable = disable, Anduril = False, EnableAll = enableAll,
      DisableAll = disableAll, Fast = fast, Presets = []\<rparr>"

definition no_custom :: "(string \<times> unit) list" where
  "no_custom = []"

definition no_loader :: "(unit, unit) custom_loader" where
  "no_loader name settings = Inl ''no plugin''"

section \<open>Runner (package lint)\<close>

text \<open>
  \<open>errors.Join\<close> of the Go standard library: nil arguments are discarded; the result is
  nil when none is left, and otherwise one error that wraps the others in order.
\<close>

definition errors_Join :: "lint_error option list \<Rightarrow> lint_error option" where
  "errors_Join errs =
     (let es = List.map_filter (\<lambda>e. e) errs in if es = [] then None else Some (Joined es))"

text \<open>
  \<open>runLinterSafe\<close>. The deferred function turns a panic of \<open>lc.Linter.Run\<close> into the
  returned error, the named result \<open>ret\<close> staying nil; the statements after the call are
  then skipped, \<open>ClearTypesInPackages\<close> among them. \<open>ClearTypesInPackages\<close> belongs to
  \<open>linter.Context\<close>, which is not among the sources: it is a parameter. The result is the
  context as the call left it, with either the error or the stamped issues.
\<close>

definition stamp :: "'c linter_config \<Rightarrow> issue \<Rightarrow> issue" where
  "stamp lc i = (if FromLinter i = [] then i\<lparr>FromLinter := Name lc\<rparr> else i)"

definition runLinterSafe ::
  "('c \<Rightarrow> 'c) \<Rightarrow> 'c \<Rightarrow> 'c linter_config \<Rightarrow> 'c \<times> (lint_error + issue list)" where
  "runLinterSafe ClearTypesInPackages lintCtx lc =
     (case Linter_Run lc lintCtx of
        (lintCtx', Panicked panicData) \<Rightarrow>
          (lintCtx',
           Inl (case panicData of
                  PanicError pe \<Rightarrow> NamedPanic (Name lc) pe
                | PanicValue v \<Rightarrow> PanicOccurred v))
      | (lintCtx', Returned issues err) \<Rightarrow>
          (let lintCtx'' = (if DoesChangeTypes lc then ClearTypesInPackages lintCtx' else lintCtx')
           in case err of
                Some e \<Rightarrow> (lintCtx'', Inl e)
              | None \<Rightarrow> (lintCtx'', Inr (map (stamp lc) issues))))"

text \<open>
  The variables of \<open>Run\<close> that its loop changes: the shared context behind \<open>r.lintCtx\<close>,
  \<open>lintErrors\<close>, \<open>issues\<close>, and the stages that the stopwatch \<open>sw\<close> has tracked.
\<close>

record 'c run_state =
  rs_lintCtx :: 'c
  rs_lintErrors :: "lint_error option"
  rs_issues :: "issue list"
  rs_stages :: "string list"

text \<open>One iteration of \<open>for _, lc := range linters\<close>.\<close>

definition run_linter :: "('c \<Rightarrow> 'c) \<Rightarrow> 'c linter_config \<Rightarrow> 'c run_state \<Rightarrow> 'c run_state" where
  "run_linter ClearTypesInPackages lc st =
     (case runLinterSafe ClearTypesInPackages (rs_lintCtx st) lc of
        (lintCtx', Inl err) \<Rightarrow>
          st\<lparr>rs_lintCtx := lintCtx',
             rs_lintErrors :=
               errors_Join [rs_lintErrors st, Some (CantRunLinter (Name lc)), Some err],
             rs_stages := rs_stages st @ [Name lc]\<rparr>
      | (lintCtx', Inr linterIssues) \<Rightarrow>
          st\<lparr>rs_lintCtx := lintCtx',
             rs_issues := rs_issues st @ linterIssues,
             rs_stages := rs_stages st @ [Name lc]\<rparr>)"

definition run_linters ::
  "('c \<Rightarrow> 'c) \<Rightarrow> 'c linter_config list \<Rightarrow> 'c run_state \<Rightarrow> 'c run_state" where
  "run_linters ClearTypesInPackages linters st = fold (run_linter ClearTypesInPackages) linters st"

text \<open>
  A stage of the pipeline (\<open>processors.Processor\<close>): its name and its \<open>Process\<close>, which
  returns \<open>(newIssues, err)\<close>. A stage object owns its caches and \<open>Process\<close> is called once
  in a run, so within one run it is a function of its input. \<open>Finish\<close> only logs.
\<close>

record processor =
  Processor_Name :: string
  Process :: "issue list \<Rightarrow> issue list \<times> string option"

record processorStat =
  inCount :: nat
  outCount :: nat

text \<open>
  \<open>statPerProcessor\<close> is a Go map read with the zero value for a missing key and printed
  only where \<open>inCount\<close> is not 0: a total function with the zero value as default.
\<close>

type_synonym stat_map = "string \<Rightarrow> processorStat"

definition no_stat :: stat_map where
  "no_stat = (\<lambda>name. \<lparr>inCount = 0, outCount = 0\<rparr>)"

text \<open>
  One iteration of the loop of \<open>processIssues\<close>, on the variables \<open>issues\<close> and
  \<open>statPerProcessor\<close>. The final \<open>if issues == nil { issues = []result.Issue{} }\<close> of the
  loop body replaces a nil slice by an empty one: both are the empty list here.
\<close>

definition process_stage :: "processor \<Rightarrow> issue list \<times> stat_map \<Rightarrow> issue list \<times> stat_map" where
  "process_stage p = (\<lambda>(issues, statPerProcessor).
     case Process p issues of
       (newIssues, Some err) \<Rightarrow> (issues, statPerProcessor)
     | (newIssues, None) \<Rightarrow>
         (let stat = statPerProcessor (Processor_Name p);
              stat' = stat\<lparr>inCount := inCount stat + length issues,
                           outCount := outCount stat + length newIssues\<rparr>
          in (newIssues, statPerProcessor(Processor_Name p := stat'))))"

definition processIssues :: "processor list \<Rightarrow> issue list \<Rightarrow> stat_map \<Rightarrow> issue list \<times> stat_map" where
  "processIssues processors issues statPerProcessor =
     fold process_stage processors (issues, statPerProcessor)"

record 'c Runner =
  lintCtx :: 'c
  Processors :: "processor list"

definition processLintResults :: "'c Runner \<Rightarrow> issue list \<Rightarrow> issue list" where
  "processLintResults r inIssues =
     (if length inIssues \<noteq> 0 then fst (processIssues (Processors r) inIssues no_stat) else [])"

text \<open>The issues that \<open>Run\<close> has accumulated when its loop ends, and \<open>Run\<close> itself.\<close>

definition Run_state :: "('c \<Rightarrow> 'c) \<Rightarrow> 'c Runner \<Rightarrow> 'c linter_config list \<Rightarrow> 'c run_state" where
  "Run_state ClearTypesInPackages r linters =
     run_linters ClearTypesInPackages linters
       \<lparr>rs_lintCtx = lintCtx r, rs_lintErrors = None, rs_issues = [], rs_stages = []\<rparr>"

definition Run ::
  "('c \<Rightarrow> 'c) \<Rightarrow> 'c Runner \<Rightarrow> 'c linter_config list \<Rightarrow> issue list \<times> lint_error option" where
  "Run ClearTypesInPackages r linters =
     (let st = Run_state ClearTypesInPackages r linters
      in (processLintResults r (rs_issues st), rs_lintErrors st))"


section \<open>Strings and paths of the Go standard library\<close>

text \<open>
  Go strings are byte strings. \<open>strings.TrimSpace\<close> and \<open>strings.ToLower\<close> are modelled on
  the ASCII range: the white space is tab, line feed, vertical tab, form feed, carriage
  return and space, and only the letters A to Z change under \<open>ToLower\<close>.
\<close>

definition isSpace :: "char \<Rightarrow> bool" where
  "isSpace c \<longleftrightarrow> c \<in> set [CHR 0x09, CHR 0x0A, CHR 0x0B, CHR 0x0C, CHR 0x0D, CHR '' '']"

definition TrimSpace :: "string \<Rightarrow> string" where
  "TrimSpace s = rev (dropWhile isSpace (rev (dropWhile isSpace s)))"

definition HasPrefix :: "string \<Rightarrow> string \<Rightarrow> bool" where
  "HasPrefix s pre \<longleftrightarrow> prefix pre s"

definition HasSuffix :: "string \<Rightarrow> string \<Rightarrow> bool" where
  "HasSuffix s suf \<longleftrightarrow> suffix suf s"

definition TrimPrefix :: "string \<Rightarrow> string \<Rightarrow> string" where
  "TrimPrefix s pre = (if HasPrefix s pre then drop (length pre) s else s)"

definition Contains :: "string \<Rightarrow> string \<Rightarrow> bool" where
  "Contains s substr \<longleftrightarrow> sublist substr s"

definition toLower :: "char \<Rightarrow> char" where
  "toLower c =
     (case map_of (zip ''ABCDEFGHIJKLMNOPQRSTUVWXYZ'' ''abcdefghijklmnopqrstuvwxyz'') c of
        Some l \<Rightarrow> l
      | None \<Rightarrow> c)"

definition ToLower :: "string \<Rightarrow> string" where
  "ToLower s = map toLower s"

fun Join :: "string list \<Rightarrow> string \<Rightarrow> string" where
  "Join [] sep = []"
| "Join [x] sep = x"
| "Join (x # y # ys) sep = x @ sep @ Join (y # ys) sep"

text \<open>
  \<open>filepath.Base\<close> with the separator \<open>/\<close>: the last element of the path, trailing
  separators removed first; \<open>.\<close> for the empty path, \<open>/\<close> for a path of separators only.
\<close>

definition filepath_Base :: "string \<Rightarrow> string" where
  "filepath_Base path =
     (if path = [] then ''.''
      else (let stripped = rev (dropWhile (\<lambda>c. c = CHR ''/'') (rev path));
                elem = rev (takeWhile (\<lambda>c. c \<noteq> CHR ''/'') (rev stripped))
            in if elem = [] then ''/'' else elem))"

section \<open>AutogeneratedExclude (pkg/result/processors/autogenerated_exclude.go)\<close>

record ageFileSummary =
  isGenerated :: bool

type_synonym ageFileSummaryCache = "string \<rightharpoonup> ageFileSummary"

record AutogeneratedExclude =
  fileSummaryCache :: ageFileSummaryCache

definition NewAutogeneratedExclude :: AutogeneratedExclude where
  "NewAutogeneratedExclude = \<lparr>fileSummaryCache = Map.empty\<rparr>"

text \<open>The errors of this stage, one constructor for each message of the source.\<close>

datatype age_error =
    NoFilePathForIssue
  | FailedToOpenFile
  | FailedToScanFile
  | FailedToGetDoc string age_error

text \<open>
  The files that \<open>os.Open\<close> can open, each with its content split at the line feeds, as
  \<open>bufio.Scanner\<close> delivers it; a path outside the map cannot be opened.
\<close>

type_synonym files = "string \<rightharpoonup> string list"

definition isSpecialAutogeneratedFile :: "string \<Rightarrow> bool" where
  "isSpecialAutogeneratedFile filePath =
     (let fileName = filepath_Base filePath
      in fileName = ''yacctab'' \<or> fileName = ''yaccpar'' \<or> fileName = ''NONE'')"

definition markers :: "string list" where
  "markers = [''code generated'', ''do not edit'', ''autogenerated file'']"

definition isGeneratedFileByComment :: "string \<Rightarrow> bool" where
  "isGeneratedFileByComment doc =
     (let doc' = ToLower doc in list_ex (\<lambda>marker. Contains doc' marker) markers)"

definition maxTokenSize :: nat where
  "maxTokenSize = 512 * 1024"

text \<open>
  The loop of \<open>getDoc\<close> over the lines still to scan, \<open>docLines\<close> being the comment
  texts collected so far. The scanner's buffer holds \<open>maxTokenSize\<close> bytes and cannot
  grow, so \<open>Scan\<close> stops with an error at a line of that many bytes or more, and
  \<open>scanner.Err()\<close> then makes \<open>getDoc\<close> fail. After a \<open>break\<close> nothing more is scanned.
\<close>

fun scanDoc :: "string list \<Rightarrow> string list \<Rightarrow> age_error + string list" where
  "scanDoc [] docLines = Inr docLines"
| "scanDoc (text # rest) docLines =
     (if maxTokenSize \<le> length text then Inl FailedToScanFile
      else (let line = TrimSpace text
            in if HasPrefix line ''//''
               then scanDoc rest (docLines @ [TrimSpace (TrimPrefix line ''//'')])
               else if line = [] \<or> HasPrefix line ''package''
               then scanDoc rest docLines
               else Inr docLines))"

definition getDoc :: "files \<Rightarrow> string \<Rightarrow> age_error + string" where
  "getDoc fs filePath =
     (case fs filePath of
        None \<Rightarrow> Inl FailedToOpenFile
      | Some content \<Rightarrow>
          (case scanDoc content [] of
             Inl err \<Rightarrow> Inl err
           | Inr docLines \<Rightarrow> Inr (Join docLines [CHR 0x0A])))"

text \<open>
  \<open>getOrCreateFileSummary\<close>. The cache holds pointers: the summary is stored with its zero
  value before the file is read, and \<open>fs.isGenerated = ...\<close> afterwards writes through the
  pointer, which is an update of the cache entry here.
\<close>

definition getOrCreateFileSummary ::
  "files \<Rightarrow> AutogeneratedExclude \<Rightarrow> issue \<Rightarrow> AutogeneratedExclude \<times> (age_error + ageFileSummary)" where
  "getOrCreateFileSummary fs p i =
     (case fileSummaryCache p (FilePath i) of
        Some summary \<Rightarrow> (p, Inr summary)
      | None \<Rightarrow>
          (let p' = p\<lparr>fileSummaryCache :=
                        (fileSummaryCache p)(FilePath i \<mapsto> \<lparr>isGenerated = False\<rparr>)\<rparr>
           in if FilePath i = [] then (p', Inl NoFilePathForIssue)
              else (case getDoc fs (FilePath i) of
                      Inl err \<Rightarrow> (p', Inl (FailedToGetDoc (FilePath i) err))
                    | Inr doc \<Rightarrow>
                        (let summary = \<lparr>isGenerated = isGeneratedFileByComment doc\<rparr>
                         in (p'\<lparr>fileSummaryCache :=
                                  (fileSummaryCache p')(FilePath i \<mapsto> summary)\<rparr>,
                             Inr summary)))))"

text \<open>\<open>AutogeneratedExclude.shouldPassIssue\<close>; \<open>Inl err\<close> stands for \<open>(false, err)\<close>.\<close>

definition AutogeneratedExclude_shouldPassIssue ::
  "files \<Rightarrow> AutogeneratedExclude \<Rightarrow> issue \<Rightarrow> AutogeneratedExclude \<times> (age_error + bool)" where
  "AutogeneratedExclude_shouldPassIssue fs p i =
     (if FromLinter i = ''typecheck'' then (p, Inr True)
      else if isSpecialAutogeneratedFile (FilePath i) then (p, Inr False)
      else (case getOrCreateFileSummary fs p i of
              (p', Inl err) \<Rightarrow> (p', Inl err)
            | (p', Inr summary) \<Rightarrow> (p', Inr (\<not> isGenerated summary))))"

text \<open>
  Modelled from the spec: \<open>filterIssuesErr\<close> is not among the sources. A filtering stage
  admits or removes each diagnostic of the sequence, in order, and yields the surviving
  diagnostics or an error; here the first error of the predicate ends the filtering.
\<close>

fun filterIssuesErr ::
  "('s \<Rightarrow> issue \<Rightarrow> 's \<times> ('e + bool)) \<Rightarrow> 's \<Rightarrow> issue list \<Rightarrow> 's \<times> ('e + issue list)" where
  "filterIssuesErr f s [] = (s, Inr [])"
| "filterIssuesErr f s (i # issues) =
     (case f s i of
        (s', Inl err) \<Rightarrow> (s', Inl err)
      | (s', Inr ok) \<Rightarrow>
          (case filterIssuesErr f s' issues of
             (s'', Inl err) \<Rightarrow> (s'', Inl err)
           | (s'', Inr retIssues) \<Rightarrow> (s'', Inr (if ok then i # retIssues else retIssues))))"

definition AutogeneratedExclude_Process ::
  "files \<Rightarrow> AutogeneratedExclude \<Rightarrow> issue list \<Rightarrow> AutogeneratedExclude \<times> (age_error + issue list)" where
  "AutogeneratedExclude_Process fs p issues =
     filterIssuesErr (AutogeneratedExclude_shouldPassIssue fs) p issues"

section \<open>SkipDirs (pkg/result/processors/skip_dirs.go)\<close>

text \<open>
  What the stage takes from outside the sources, as parameters: the regular expressions
  of package \<open>regexp\<close> (compiled patterns of type \<open>'re\<close>), the path functions of
  \<open>path/filepath\<close> that depend on the platform and the working directory, the two helpers
  of \<open>fsutils\<close>, and the constant \<open>goFileExtension\<close>.
\<close>

record 're environment =
  regexp_Compile :: "string \<Rightarrow> string + 're"
  MatchString :: "'re \<Rightarrow> string \<Rightarrow> bool"
  regexp_String :: "'re \<Rightarrow> string"
  NormalizePathInRegex :: "string \<Rightarrow> string"
  WithPathPrefix :: "string \<Rightarrow> string \<Rightarrow> string"
  filepath_Abs :: "string \<Rightarrow> string + string"
  filepath_Dir :: "string \<Rightarrow> string"
  filepath_IsAbs :: "string \<Rightarrow> bool"
  goFileExtension :: string

record skipStat =
  stat_pattern :: string
  stat_count :: nat

record 're SkipDirs =
  patterns :: "'re list"
  skippedDirs :: "string \<rightharpoonup> skipStat"
  absArgsDirs :: "string list"
  skippedDirsCache :: "string \<rightharpoonup> bool"
  pathPrefix :: string

datatype skip_error =
    CantCompileRegexp string string
  | FailedToAbsifyArg string string

text \<open>The first loop of \<open>NewSkipDirs\<close>: it returns at the first pattern that does not compile.\<close>

fun compilePatterns :: "'re environment \<Rightarrow> string list \<Rightarrow> skip_error + 're list" where
  "compilePatterns env [] = Inr []"
| "compilePatterns env (p # ps) =
     (let p' = NormalizePathInRegex env p
      in case regexp_Compile env p' of
           Inl err \<Rightarrow> Inl (CantCompileRegexp p' err)
         | Inr patternRe \<Rightarrow>
             (case compilePatterns env ps of
                Inl e \<Rightarrow> Inl e
              | Inr patternsRe \<Rightarrow> Inr (patternRe # patternsRe)))"

text \<open>The directory that an analysis argument stands for, before it is made absolute.\<close>

definition argDir :: "'re environment \<Rightarrow> string \<Rightarrow> string" where
  "argDir env arg =
     (let base = filepath_Base arg
      in if base = ''...'' \<or> HasSuffix base (goFileExtension env)
         then filepath_Dir env arg else arg)"

fun absArgs :: "'re environment \<Rightarrow> string list \<Rightarrow> skip_error + string list" where
  "absArgs env [] = Inr []"
| "absArgs env (arg # args) =
     (let arg' = argDir env arg
      in case filepath_Abs env arg' of
           Inl err \<Rightarrow> Inl (FailedToAbsifyArg arg' err)
         | Inr absArg \<Rightarrow>
             (case absArgs env args of
                Inl e \<Rightarrow> Inl e
              | Inr dirs \<Rightarrow> Inr (absArg # dirs)))"

definition NewSkipDirs ::
  "'re environment \<Rightarrow> string list \<Rightarrow> string list \<Rightarrow> string \<Rightarrow> skip_error + 're SkipDirs" where
  "NewSkipDirs env patterns' runArgs pathPrefix' =
     (case compilePatterns env patterns' of
        Inl e \<Rightarrow> Inl e
      | Inr patternsRe \<Rightarrow>
          (let runArgs' = (if length runArgs = 0 then runArgs @ [''./...''] else runArgs)
           in case absArgs env runArgs' of
                Inl e \<Rightarrow> Inl e
              | Inr dirs \<Rightarrow>
                  Inr \<lparr>patterns = patternsRe,
                       skippedDirs = Map.empty,
                       absArgsDirs = dirs,
                       skippedDirsCache = Map.empty,
                       pathPrefix = pathPrefix'\<rparr>))"

text \<open>
  \<open>p.skippedDirs[dir].count++\<close> dereferences the pointer stored for \<open>dir\<close>: with no entry
  the pointer is nil and the statement panics, which is the result \<open>None\<close>.
\<close>

definition countSkipped :: "'re SkipDirs \<Rightarrow> string \<Rightarrow> 're SkipDirs option" where
  "countSkipped p dir =
     (case skippedDirs p dir of
        None \<Rightarrow> None
      | Some stat \<Rightarrow>
          Some (p\<lparr>skippedDirs := (skippedDirs p)(dir \<mapsto> stat\<lparr>stat_count := stat_count stat + 1\<rparr>)\<rparr>))"

definition SkipDirs_shouldPassIssueDirs ::
  "'re environment \<Rightarrow> 're SkipDirs \<Rightarrow> string \<Rightarrow> string \<Rightarrow> ('re SkipDirs \<times> bool) option" where
  "SkipDirs_shouldPassIssueDirs env p issueRelDir issueAbsDir =
     (if list_ex (\<lambda>absArgDir. absArgDir = issueAbsDir) (absArgsDirs p) then Some (p, True)
      else (let path = WithPathPrefix env (pathPrefix p) issueRelDir
            in case find (\<lambda>pattern. MatchString env pattern path) (patterns p) of
                 None \<Rightarrow> Some (p, True)
               | Some pattern \<Rightarrow>
                   (let p' = (if skippedDirs p issueRelDir = None
                              then p\<lparr>skippedDirs := (skippedDirs p)(issueRelDir \<mapsto>
                                       \<lparr>stat_pattern = regexp_String env pattern, stat_count = 0\<rparr>)\<rparr>
                              else p)
                    in map_option (\<lambda>p''. (p'', False)) (countSkipped p' issueRelDir))))"

definition SkipDirs_shouldPassIssue ::
  "'re environment \<Rightarrow> 're SkipDirs \<Rightarrow> issue \<Rightarrow> ('re SkipDirs \<times> bool) option" where
  "SkipDirs_shouldPassIssue env p i =
     (if filepath_IsAbs env (FilePath i) then Some (p, True)
      else (let issueRelDir = filepath_Dir env (FilePath i)
            in case skippedDirsCache p issueRelDir of
                 Some toPass \<Rightarrow>
                   (if \<not> toPass then map_option (\<lambda>p'. (p', toPass)) (countSkipped p issueRelDir)
                    else Some (p, toPass))
               | None \<Rightarrow>
                   (case filepath_Abs env issueRelDir of
                      Inl err \<Rightarrow> Some (p, True)
                    | Inr issueAbsDir \<Rightarrow>
                        (case SkipDirs_shouldPassIssueDirs env p issueRelDir issueAbsDir of
                           None \<Rightarrow> None
                         | Some (p', toPass) \<Rightarrow>
                             Some (p'\<lparr>skippedDirsCache :=
                                        (skippedDirsCache p')(issueRelDir \<mapsto> toPass)\<rparr>,
                                   toPass)))))"

text \<open>
  Modelled from the spec: \<open>filterIssues\<close> is not among the sources. It admits or removes
  each diagnostic of the sequence, in order, by the predicate; a panic of the predicate
  (\<open>None\<close>) ends it.
\<close>

fun filterIssues ::
  "('s \<Rightarrow> issue \<Rightarrow> ('s \<times> bool) option) \<Rightarrow> 's \<Rightarrow> issue list \<Rightarrow> ('s \<times> issue list) option" where
  "filterIssues f s [] = Some (s, [])"
| "filterIssues f s (i # issues) =
     (case f s i of
        None \<Rightarrow> None
      | Some (s', ok) \<Rightarrow>
          (case filterIssues f s' issues of
             None \<Rightarrow> None
           | Some (s'', retIssues) \<Rightarrow> Some (s'', if ok then i # retIssues else retIssues)))"

definition SkipDirs_Process ::
  "'re environment \<Rightarrow> 're SkipDirs \<Rightarrow> issue list \<Rightarrow> ('re SkipDirs \<times> issue list) option" where
  "SkipDirs_Process env p issues =
     (if length (patterns p) = 0 then Some (p, issues)
      else filterIssues (SkipDirs_shouldPassIssue env) p issues)"

section \<open>Example tasks, issues, stages and a runner\<close>


definition reporting_linter :: "string \<Rightarrow> issue list \<Rightarrow> unit linter_config" where
  "reporting_linter name issues =
     (example_linter name [] True False)\<lparr>Linter_Run := (\<lambda>c. (c, Returned issues None))\<rparr>"

definition example_issue :: "string \<Rightarrow> string \<Rightarrow> nat \<Rightarrow> issue" where
  "example_issue fromLinter filePath line =
     \<lparr>FromLinter = fromLinter, Text = ''finding'', Severity = [], FilePath = filePath,
      Line = line, Column = 0\<rparr>"

definition failing_processor :: processor where
  "failing_processor = \<lparr>Processor_Name = ''failing'', Process = (\<lambda>issues. ([], Some ''broken''))\<rparr>"

definition keep_first_processor :: processor where
  "keep_first_processor = \<lparr>Processor_Name = ''keep_first'', Process = (\<lambda>issues. (take 1 issues, None))\<rparr>"


section \<open>The generated-file stage in the words of the specification, and example files\<close>

text \<open>
  The lines that \<open>getDoc\<close> passes over without leaving its loop, in the words of the
  specification: a comment line, a blank line, a package declaration. The leading block
  of a file is its longest prefix of such lines, and the text of a comment line is what
  \<open>getDoc\<close> collects of it.
\<close>

definition isCommentLine :: "string \<Rightarrow> bool" where
  "isCommentLine text \<longleftrightarrow> HasPrefix (TrimSpace text) ''//''"

definition isBlankLine :: "string \<Rightarrow> bool" where
  "isBlankLine text \<longleftrightarrow> TrimSpace text = []"

definition isPackageLine :: "string \<Rightarrow> bool" where
  "isPackageLine text \<longleftrightarrow> HasPrefix (TrimSpace text) ''package''"

definition inLeadingBlock :: "string \<Rightarrow> bool" where
  "inLeadingBlock text \<longleftrightarrow> isCommentLine text \<or> isBlankLine text \<or> isPackageLine text"

definition leadingBlock :: "string list \<Rightarrow> string list" where
  "leadingBlock content = takeWhile inLeadingBlock content"

definition commentText :: "string \<Rightarrow> string" where
  "commentText text = TrimSpace (TrimPrefix (TrimSpace text) ''//'')"

text \<open>
  A file is generated, for this stage, when its name is one of the special names or when
  it can be read and the comments \<open>getDoc\<close> collects hold a marker.
\<close>

definition isGeneratedFile :: "files \<Rightarrow> string \<Rightarrow> bool" where
  "isGeneratedFile fs filePath \<longleftrightarrow>
     isSpecialAutogeneratedFile filePath
     \<or> (case getDoc fs filePath of Inl err \<Rightarrow> False | Inr doc \<Rightarrow> isGeneratedFileByComment doc)"

text \<open>The state of the stage after \<open>shouldPassIssue\<close> has been called on each issue of a list.\<close>

definition after_issues :: "files \<Rightarrow> AutogeneratedExclude \<Rightarrow> issue list \<Rightarrow> AutogeneratedExclude" where
  "after_issues fs p issues =
     fold (\<lambda>i p'. fst (AutogeneratedExclude_shouldPassIssue fs p' i)) issues p"

text \<open>
  Four files: one with the marker in its leading comment, one with the marker after the
  first declaration, one with the marker behind the package clause, one without marker.
\<close>

definition example_files :: files where
  "example_files = map_of
     [(''zz_generated.go'',
        [''// Code generated by tool; DO NOT EDIT.'', ''package zz'', [], ''func f() {}'',
         ''var x = 1'']),
      (''late.go'',
        [''package late'', [], ''func f() {}'', ''// DO NOT EDIT'']),
      (''pkgline.go'',
        [''package main // Code generated by tool; DO NOT EDIT.'', [], ''func main() {}'']),
      (''plain.go'',
        [''// Package plain is written by hand.'', ''package plain''])]"

text \<open>
  The stage as \<open>NewRunner\<close> puts it into the pipeline: \<open>NewAutogeneratedExclude()\<close> takes
  no argument, so the stage has a fresh cache and no configuration. An error of
  \<open>Process\<close> comes with a nil slice.
\<close>

definition AutogeneratedExclude_stage :: "files \<Rightarrow> processor" where
  "AutogeneratedExclude_stage fs =
     \<lparr>Processor_Name = ''autogenerated_exclude'',
      Process = (\<lambda>issues.
        case snd (AutogeneratedExclude_Process fs NewAutogeneratedExclude issues) of
          Inl err \<Rightarrow> ([], Some ''can't filter issue'')
        | Inr retIssues \<Rightarrow> (retIssues, None))\<rparr>"

text \<open>Every summary of the cache is the classification of a file that can be read.\<close>

definition cacheAgrees :: "files \<Rightarrow> AutogeneratedExclude \<Rightarrow> bool" where
  "cacheAgrees fs p \<longleftrightarrow>
     (\<forall>k summary. fileSummaryCache p k = Some summary \<longrightarrow>
        (\<exists>doc. getDoc fs k = Inr doc \<and> isGenerated summary = isGeneratedFileByComment doc))"

section \<open>The directory stage: its invariant and an example environment\<close>

text \<open>
  What the stage keeps true of its caches: a directory that the cache marks as skipped
  has a statistics entry, and its absolute path is none of the directories of the
  analysis arguments.
\<close>

definition skipInv :: "'re environment \<Rightarrow> 're SkipDirs \<Rightarrow> bool" where
  "skipInv env p \<longleftrightarrow>
     (\<forall>dir. skippedDirsCache p dir = Some False \<longrightarrow>
        skippedDirs p dir \<noteq> None
        \<and> (\<exists>a. filepath_Abs env dir = Inr a \<and> a \<notin> set (absArgsDirs p)))"

text \<open>
  An environment for relative paths without \<open>.\<close> and \<open>..\<close> elements under the working
  directory \<open>/work\<close>, with the separator \<open>/\<close>: \<open>filepath.Dir\<close> drops the last element,
  \<open>filepath.Abs\<close> prefixes the working directory. The patterns are literal texts, which
  match where they occur.
\<close>

definition relative_Dir :: "string \<Rightarrow> string" where
  "relative_Dir path =
     (let dir = rev (drop 1 (dropWhile (\<lambda>c. c \<noteq> CHR ''/'') (rev path)))
      in if dir = [] then ''.'' else dir)"

definition example_environment :: "string environment" where
  "example_environment =
     \<lparr>regexp_Compile = (\<lambda>p. Inr p),
      MatchString = (\<lambda>re s. Contains s re),
      regexp_String = (\<lambda>re. re),
      NormalizePathInRegex = (\<lambda>p. p),
      WithPathPrefix = (\<lambda>pfx path. if pfx = [] then path else pfx @ ''/'' @ path),
      filepath_Abs = (\<lambda>p. Inr (if p = ''.'' then ''/work'' else ''/work/'' @ p)),
      filepath_Dir = relative_Dir,
      filepath_IsAbs = (\<lambda>p. HasPrefix p ''/''),
      goFileExtension = ''.go''\<rparr>"

text \<open>The stage that \<open>NewSkipDirs\<close> builds for the pattern \<open>nats\<close> and no path prefix.\<close>

definition example_skipDirs :: "string list \<Rightarrow> string SkipDirs" where
  "example_skipDirs dirs =
     \<lparr>patterns = [''nats''], skippedDirs = Map.empty, absArgsDirs = dirs,
      skippedDirsCache = Map.empty, pathPrefix = []\<rparr>"

section \<open>Properties of the resolver\<close>

subsection \<open>Seed set and validation\<close>

lemma seed_tasks_filter:
  "seed_tasks m lcfg =
     (if Presets lcfg \<noteq> [] then {}
      else if EnableAll lcfg then set (map Name (GetAllSupportedLinterConfigs m))
      else if DisableAll lcfg then {}
      else set (map Name (filter EnabledByDefault (GetAllSupportedLinterConfigs m))))"
  by (simp add: seed_tasks_def)

lemma dom_fold_put_linter: "dom (fold put_linter lcs s) = dom s \<union> Name ` set lcs"
  by (induction lcs arbitrary: s) (auto simp: put_linter_def)

lemma fold_put_linter_Some:
  "fold put_linter lcs s n = Some lc \<Longrightarrow> s n = Some lc \<or> (lc \<in> set lcs \<and> Name lc = n)"
proof (induction lcs arbitrary: s)
  case Nil
  then show ?case by simp
next
  case (Cons a lcs)
  from Cons.prems have "fold put_linter lcs (put_linter a s) n = Some lc" by simp
  from Cons.IH [OF this] show ?case
    by (auto simp: put_linter_def split: if_splits)
qed


lemma dom_linterConfigsToMap: "dom (linterConfigsToMap lcs) = Name ` set lcs"
  by (simp add: linterConfigsToMap_def dom_fold_put_linter)

lemma linterConfigsToMap_Some:
  "linterConfigsToMap lcs n = Some lc \<Longrightarrow> lc \<in> set lcs \<and> Name lc = n"
  using fold_put_linter_Some [of lcs Map.empty n lc] by (simp add: linterConfigsToMap_def)

text \<open>
  Claim C1. The initial value of the result set in \<open>build\<close> holds exactly the task ids
  that the specification gives for the seed: none when presets are named; otherwise every
  known task under enable-all; otherwise none under disable-all; otherwise the tasks
  enabled by default. Each id is mapped to a known task with that id, which is enabled by
  default unless enable-all has put it there.
\<close>

theorem build_seed_is_seed_tasks:
  "dom (build_seed m lcfg (GetAllEnabledByDefaultLinters m)) = seed_tasks m lcfg
   \<and> (\<forall>n lc. build_seed m lcfg (GetAllEnabledByDefaultLinters m) n = Some lc \<longrightarrow>
         Name lc = n \<and> lc \<in> set (GetAllSupportedLinterConfigs m)
         \<and> (\<not> EnableAll lcfg \<longrightarrow> EnabledByDefault lc))"
proof -
  have d: "dom (build_seed m lcfg (GetAllEnabledByDefaultLinters m)) = seed_tasks m lcfg"
    by (simp add: build_seed_def seed_tasks_def dom_linterConfigsToMap
        GetAllEnabledByDefaultLinters_def)
  have v: "Name lc = n \<and> lc \<in> set (GetAllSupportedLinterConfigs m)
           \<and> (\<not> EnableAll lcfg \<longrightarrow> EnabledByDefault lc)"
    if "build_seed m lcfg (GetAllEnabledByDefaultLinters m) n = Some lc" for n lc
    using that
    by (auto simp: build_seed_def GetAllEnabledByDefaultLinters_def
        dest!: linterConfigsToMap_Some split: if_splits)
  from d v show ?thesis by blast
qed













lemmas example_defs = example_linter_def example_manager_def example_linters_def
  no_custom_def no_loader_def

lemmas build_defs = build_def build_seed_def build_presets_def build_fast_def build_enable_def
  build_disable_def build_custom_def put_linter_def delete_linter_def linterConfigsToMap_def
  GetLinterConfigs_def GetAllLinterConfigsForPreset_def GetAllEnabledByDefaultLinters_def
  AllNames_def IsSlowLinter_def

lemmas validate_defs = validateEnabledDisabledLintersConfig_def validateLintersNames_def
  validatePresets_def validateAllDisableEnableOptions_def
  validateDisabledAndEnabledAtOneMoment_def GetLinterConfigs_def AllNames_def

text \<open>Claim C1 at the example registry with the default configuration.\<close>

theorem build_seed_is_seed_tasks_witness:
  "dom (build_seed example_manager (example_linters [] [] False False False)
          (GetAllEnabledByDefaultLinters example_manager)) = {''govet'', ''errcheck''}
   \<and> build_seed example_manager (example_linters [] [] False False False)
          (GetAllEnabledByDefaultLinters example_manager) ''govet''
       = Some (example_linter ''govet'' [''vet''] True True)
   \<and> EnabledByDefault (example_linter ''govet'' [''vet''] True True)"
proof -
  let ?s = "build_seed example_manager (example_linters [] [] False False False)
          (GetAllEnabledByDefaultLinters example_manager)"
  have v: "?s ''govet'' = Some (example_linter ''govet'' [''vet''] True True)"
    by (simp add: example_defs build_defs)
  have "dom ?s = seed_tasks example_manager (example_linters [] [] False False False)"
    using build_seed_is_seed_tasks [of example_manager "example_linters [] [] False False False"]
    by blast
  moreover have "seed_tasks example_manager (example_linters [] [] False False False)
      = {''govet'', ''errcheck''}"
    by (simp add: seed_tasks_filter example_defs)
  moreover have "EnabledByDefault (example_linter ''govet'' [''vet''] True True)"
    using build_seed_is_seed_tasks [of example_manager "example_linters [] [] False False False"] v
    by (simp add: example_linters_def)
  ultimately show ?thesis using v by simp
qed



subsection \<open>The fast flag\<close>

lemma dom_fold_fold_put_linter:
  "dom (fold (\<lambda>name. fold put_linter (f name)) names s)
     = dom s \<union> (\<Union>name \<in> set names. Name ` set (f name))"
  by (induction names arbitrary: s) (auto simp: dom_fold_put_linter)

lemma fold_fold_put_linter_Some:
  "fold (\<lambda>name. fold put_linter (f name)) names s n = Some lc \<Longrightarrow>
     s n = Some lc \<or> (\<exists>name \<in> set names. lc \<in> set (f name) \<and> Name lc = n)"
proof (induction names arbitrary: s)
  case Nil
  then show ?case by simp
next
  case (Cons a names)
  from Cons.prems
  have "fold (\<lambda>name. fold put_linter (f name)) names (fold put_linter (f a) s) n = Some lc"
    by simp
  from Cons.IH [OF this] show ?case
    by (auto dest: fold_put_linter_Some)
qed

lemma fold_delete_linter:
  "fold delete_linter lcs s n = (if n \<in> Name ` set lcs then None else s n)"
  by (induction lcs arbitrary: s) (auto simp: delete_linter_def)

lemma fold_fold_delete_linter:
  "fold (\<lambda>name. fold delete_linter (f name)) names s n
     = (if n \<in> (\<Union>name \<in> set names. Name ` set (f name)) then None else s n)"
  by (induction names arbitrary: s) (auto simp: fold_delete_linter)

lemma build_custom_Some:
  "build_custom load custom s n = Some lc \<Longrightarrow>
     s n = Some lc \<or> (\<exists>(k, settings) \<in> set custom. load k settings = Inr lc)"
  unfolding build_custom_def
proof (induction custom arbitrary: s)
  case Nil
  then show ?case by simp
next
  case (Cons a custom)
  obtain k settings where a: "a = (k, settings)" by (cases a)
  show ?case
  proof (cases "load k settings")
    case (Inl err)
    with Cons.prems a Cons.IH [of s] show ?thesis by auto
  next
    case (Inr linterConfig)
    with Cons.prems a Cons.IH [of "put_linter linterConfig s"]
    have "put_linter linterConfig s n = Some lc
          \<or> (\<exists>(k, settings) \<in> set custom. load k settings = Inr lc)"
      by simp
    then show ?thesis
    proof
      assume p: "put_linter linterConfig s n = Some lc"
      show ?thesis
      proof (cases "n = Name linterConfig")
        case True
        with p have "linterConfig = lc" by (simp add: put_linter_def)
        with Inr a show ?thesis by auto
      next
        case False
        with p show ?thesis by (simp add: put_linter_def)
      qed
    next
      assume "\<exists>(k, settings) \<in> set custom. load k settings = Inr lc"
      then show ?thesis by auto
    qed
  qed
qed

lemma build_custom_dom: "n \<in> dom s \<Longrightarrow> n \<in> dom (build_custom load custom s)"
  unfolding build_custom_def
proof (induction custom arbitrary: s)
  case Nil
  then show ?case by simp
next
  case (Cons a custom)
  obtain k settings where a: "a = (k, settings)" by (cases a)
  show ?case
  proof (cases "load k settings")
    case (Inl err)
    with Cons a show ?thesis by simp
  next
    case (Inr linterConfig)
    from Cons.prems have "n \<in> dom (put_linter linterConfig s)" by (auto simp: put_linter_def)
    from Cons.IH [OF this] Inr a show ?thesis by simp
  qed
qed

lemma build_fast_not_slow:
  "Fast lcfg \<Longrightarrow> build_fast lcfg s n = Some lc \<Longrightarrow> \<not> IsSlowLinter lc"
  by (auto simp: build_fast_def split: option.splits if_splits)

text \<open>
  Claim C5, as amended. Under the fast flag no slow task is left in the set after the
  presets have been added; a slow task of the final set was named by the enable list or
  is a custom task; and a task named by the enable list is in the final set unless a name
  of the disable list resolves to a task with the same id.
\<close>

theorem fast_removes_slow_before_enable:
  assumes "Fast lcfg"
  shows "(\<forall>n lc. build_fast lcfg (build_presets m lcfg (build_seed m lcfg byDefault)) n = Some lc
            \<longrightarrow> \<not> IsSlowLinter lc)
       \<and> (\<forall>n lc. build m load custom lcfg byDefault n = Some lc \<and> IsSlowLinter lc \<longrightarrow>
            (\<exists>name \<in> set (Enable lcfg). lc \<in> set (GetLinterConfigs m name))
            \<or> (\<exists>(k, settings) \<in> set custom. load k settings = Inr lc))
       \<and> (\<forall>name lc. name \<in> set (Enable lcfg) \<and> lc \<in> set (GetLinterConfigs m name)
            \<and> (\<forall>d \<in> set (Disable lcfg). \<forall>lc' \<in> set (GetLinterConfigs m d). Name lc' \<noteq> Name lc)
            \<longrightarrow> Name lc \<in> dom (build m load custom lcfg byDefault))"
proof (intro conjI allI impI)
  fix n lc
  assume "build_fast lcfg (build_presets m lcfg (build_seed m lcfg byDefault)) n = Some lc"
  with assms show "\<not> IsSlowLinter lc" by (rule build_fast_not_slow)
next
  fix n lc
  let ?f = "build_fast lcfg (build_presets m lcfg (build_seed m lcfg byDefault))"
  assume a: "build m load custom lcfg byDefault n = Some lc \<and> IsSlowLinter lc"
  show "(\<exists>name \<in> set (Enable lcfg). lc \<in> set (GetLinterConfigs m name))
        \<or> (\<exists>(k, settings) \<in> set custom. load k settings = Inr lc)"
  proof (rule ccontr)
    assume neg: "\<not> ?thesis"
    from a have "build_custom load custom (build_disable m lcfg (build_enable m lcfg ?f)) n = Some lc"
      by (simp add: build_def)
    from build_custom_Some [OF this] neg
    have "build_disable m lcfg (build_enable m lcfg ?f) n = Some lc" by blast
    then have "build_enable m lcfg ?f n = Some lc"
      by (simp add: build_disable_def fold_fold_delete_linter split: if_splits)
    then have "?f n = Some lc"
      using neg fold_fold_put_linter_Some [of "GetLinterConfigs m" "Enable lcfg" ?f n lc]
      by (auto simp: build_enable_def)
    with assms a show False by (auto dest: build_fast_not_slow)
  qed
next
  fix name lc
  let ?f = "build_fast lcfg (build_presets m lcfg (build_seed m lcfg byDefault))"
  assume a: "name \<in> set (Enable lcfg) \<and> lc \<in> set (GetLinterConfigs m name)
            \<and> (\<forall>d \<in> set (Disable lcfg). \<forall>lc' \<in> set (GetLinterConfigs m d). Name lc' \<noteq> Name lc)"
  then have "Name lc \<in> dom (build_enable m lcfg ?f)"
    by (auto simp: build_enable_def dom_fold_fold_put_linter)
  moreover have "Name lc \<notin> (\<Union>d \<in> set (Disable lcfg). Name ` set (GetLinterConfigs m d))"
  proof
    assume "Name lc \<in> (\<Union>d \<in> set (Disable lcfg). Name ` set (GetLinterConfigs m d))"
    then obtain d lc' where "d \<in> set (Disable lcfg)" "lc' \<in> set (GetLinterConfigs m d)"
      "Name lc = Name lc'" by auto
    with a show False by metis
  qed
  ultimately have "Name lc \<in> dom (build_disable m lcfg (build_enable m lcfg ?f))"
    by (auto simp: build_disable_def fold_fold_delete_linter dom_def)
  then show "Name lc \<in> dom (build m load custom lcfg byDefault)"
    unfolding build_def by (rule build_custom_dom)
qed

text \<open>Claim C5, as amended, for the slow \<open>govet\<close> enabled through its alias.\<close>

theorem fast_removes_slow_before_enable_witness:
  "Fast (example_linters [''vet''] [''errcheck''] False False True)
   \<and> IsSlowLinter (example_linter ''govet'' [''vet''] True True)
   \<and> ''govet'' \<in> dom (build example_manager no_loader no_custom
                        (example_linters [''vet''] [''errcheck''] False False True)
                        (GetAllEnabledByDefaultLinters example_manager))"
proof -
  let ?cfg = "example_linters [''vet''] [''errcheck''] False False True"
  let ?lc = "example_linter ''govet'' [''vet''] True True"
  have f: "Fast ?cfg" by (simp add: example_defs)
  have h: "''vet'' \<in> set (Enable ?cfg) \<and> ?lc \<in> set (GetLinterConfigs example_manager ''vet'')
     \<and> (\<forall>d \<in> set (Disable ?cfg). \<forall>lc' \<in> set (GetLinterConfigs example_manager d).
           Name lc' \<noteq> Name ?lc)"
    by (simp add: example_defs GetLinterConfigs_def AllNames_def)
  have "Name ?lc \<in> dom (build example_manager no_loader no_custom ?cfg
                        (GetAllEnabledByDefaultLinters example_manager))"
    using fast_removes_slow_before_enable [OF f, of example_manager
        "GetAllEnabledByDefaultLinters example_manager" no_loader no_custom] h
    by blast
  then show ?thesis using f by (simp add: example_linter_def IsSlowLinter_def)
qed

text \<open>
  Claim C5 as stated fails: with the fast flag, \<open>vet\<close> enabled and \<open>govet\<close> disabled,
  validation accepts the configuration, the enable list names the slow task \<open>govet\<close>
  by its alias, and the final set does not hold it.
\<close>

theorem enabled_slow_task_disabled_by_id_counterexample:
  "Fast (example_linters [''vet''] [''govet''] False False True)
   \<and> ''vet'' \<in> set (Enable (example_linters [''vet''] [''govet''] False False True))
   \<and> map Name (GetLinterConfigs example_manager ''vet'') = [''govet'']
   \<and> map IsSlowLinter (GetLinterConfigs example_manager ''vet'') = [True]
   \<and> validateEnabledDisabledLintersConfig [] example_manager
        (example_linters [''vet''] [''govet''] False False True) = None
   \<and> build example_manager no_loader no_custom
        (example_linters [''vet''] [''govet''] False False True)
        (GetAllEnabledByDefaultLinters example_manager) ''govet'' = None"
  by (simp add: example_defs build_defs validate_defs)

section \<open>Properties of the runner\<close>



subsection \<open>The pipeline\<close>

lemma processIssues_append:
  "processIssues (ps @ qs) issues stat =
     (case processIssues ps issues stat of (issues', stat') \<Rightarrow> processIssues qs issues' stat')"
  by (simp add: processIssues_def split: prod.splits)

lemma processIssues_Cons:
  "processIssues (p # ps) issues stat =
     (case process_stage p (issues, stat) of (issues', stat') \<Rightarrow> processIssues ps issues' stat')"
  by (simp add: processIssues_def split: prod.splits)

lemma processIssues_Nil: "processIssues [] issues stat = (issues, stat)"
  by (simp add: processIssues_def)

lemma process_stage_error:
  "snd (Process p issues) = Some err \<Longrightarrow> process_stage p (issues, stat) = (issues, stat)"
  by (cases "Process p issues") (simp add: process_stage_def)

lemma process_stage_ok:
  "Process p issues = (newIssues, None) \<Longrightarrow> fst (process_stage p (issues, stat)) = newIssues"
  by (simp add: process_stage_def Let_def)

text \<open>
  Claim C4. When the \<open>Process\<close> of a stage returns an error, the stages after it are run
  on exactly the issues the failing stage received, and the statistics are the ones
  before the stage; the failing stage alone returns its input.
\<close>

theorem failing_stage_passes_input_on:
  assumes "processIssues pre issues stat = (received, stat')"
      and "snd (Process p received) = Some err"
  shows "processIssues (pre @ p # post) issues stat = processIssues post received stat'
         \<and> processIssues [p] received stat' = (received, stat')"
  using assms
  by (simp add: processIssues_append processIssues_Cons processIssues_Nil process_stage_error)

text \<open>Claim C4 for a failing stage between two stages that keep the first issue.\<close>

theorem failing_stage_passes_input_on_witness:
  "fst (processIssues [keep_first_processor, failing_processor, keep_first_processor]
          [example_issue ''a'' ''f.go'' 1, example_issue ''b'' ''f.go'' 2] no_stat)
     = [example_issue ''a'' ''f.go'' 1]
   \<and> processIssues [failing_processor] [example_issue ''a'' ''f.go'' 1] no_stat
     = ([example_issue ''a'' ''f.go'' 1], no_stat)"
proof -
  let ?is = "[example_issue ''a'' ''f.go'' 1, example_issue ''b'' ''f.go'' 2]"
  let ?a = "example_issue ''a'' ''f.go'' 1"
  obtain st where pre: "processIssues [keep_first_processor] ?is no_stat = ([?a], st)"
    by (simp add: processIssues_def process_stage_def keep_first_processor_def Let_def)
  have err: "snd (Process failing_processor [?a]) = Some ''broken''"
    by (simp add: failing_processor_def)
  have "processIssues ([keep_first_processor] @ failing_processor # [keep_first_processor]) ?is no_stat
      = processIssues [keep_first_processor] [?a] st"
    using failing_stage_passes_input_on [OF pre err] by blast
  moreover have "fst (processIssues [keep_first_processor] [?a] st) = [?a]"
    by (simp add: processIssues_def process_stage_def keep_first_processor_def Let_def)
  moreover have "processIssues [failing_processor] [?a] no_stat = ([?a], no_stat)"
    using failing_stage_passes_input_on [of "[]" "[?a]" no_stat "[?a]" no_stat failing_processor
        "''broken''" "[]"] err
    by (simp add: processIssues_Nil)
  ultimately show ?thesis by simp
qed

subsection \<open>Running the linters\<close>



















subsection \<open>Stamping\<close>







section \<open>Properties of the exclusion of generated files\<close>

subsection \<open>Strings\<close>

lemma TrimSpace_decomp:
  "\<exists>a b. s = a @ TrimSpace s @ b \<and> (\<forall>c \<in> set a. isSpace c) \<and> (\<forall>c \<in> set b. isSpace c)"
proof -
  let ?s1 = "dropWhile isSpace s"
  let ?a = "takeWhile isSpace s"
  let ?b = "rev (takeWhile isSpace (rev ?s1))"
  have "TrimSpace s @ ?b = rev (takeWhile isSpace (rev ?s1) @ dropWhile isSpace (rev ?s1))"
    by (simp only: TrimSpace_def rev_append)
  also have "\<dots> = ?s1" by (simp only: takeWhile_dropWhile_id rev_rev_ident)
  finally have "?s1 = TrimSpace s @ ?b" by (rule sym)
  then have "?a @ TrimSpace s @ ?b = ?a @ ?s1" by (rule arg_cong [where f = "\<lambda>x. ?a @ x", OF sym])
  then have "s = ?a @ TrimSpace s @ ?b" by (simp only: takeWhile_dropWhile_id)
  moreover have "\<forall>c \<in> set ?a. isSpace c" by (auto dest: set_takeWhileD)
  moreover have "\<forall>c \<in> set ?b. isSpace c" by (auto dest: set_takeWhileD)
  ultimately show ?thesis by blast
qed

lemma TrimPrefix_decomp: "HasPrefix s pre \<Longrightarrow> s = pre @ TrimPrefix s pre"
  by (auto simp: HasPrefix_def TrimPrefix_def prefix_def)

lemma toLower_space: "isSpace c \<Longrightarrow> toLower c = c"
proof -
  assume "isSpace c"
  then consider "c = CHR 0x09" | "c = CHR 0x0A" | "c = CHR 0x0B" | "c = CHR 0x0C"
    | "c = CHR 0x0D" | "c = CHR '' ''"
    unfolding isSpace_def by fastforce
  then show ?thesis by cases (simp_all add: toLower_def)
qed

lemma ToLower_append: "ToLower (a @ b) = ToLower a @ ToLower b"
  by (simp add: ToLower_def)

lemma ToLower_spaces: "\<forall>c \<in> set a. isSpace c \<Longrightarrow> ToLower a = a"
  by (induction a) (auto simp: ToLower_def toLower_space)

lemma sublist_drop_left:
  "m \<noteq> [] \<Longrightarrow> hd m \<notin> set a \<Longrightarrow> sublist m (a @ b) \<Longrightarrow> sublist m b"
proof (induction a)
  case Nil
  then show ?case by simp
next
  case (Cons x a)
  from Cons.prems(1) obtain h t where m: "m = h # t" by (cases m) auto
  with Cons.prems(2) have "\<not> prefix m (x # a @ b)" by auto
  with Cons.prems(3) have "sublist m (a @ b)" by (simp add: sublist_Cons_right)
  with Cons show ?case by simp
qed

lemma sublist_drop_right:
  assumes "m \<noteq> []" and "last m \<notin> set b" and "sublist m (a @ b)"
  shows "sublist m a"
proof -
  from assms(3) have "sublist (rev m) (rev b @ rev a)"
    by (metis rev_append sublist_rev)
  moreover from assms(1,2) have "rev m \<noteq> []" "hd (rev m) \<notin> set (rev b)"
    by (simp_all add: hd_rev)
  ultimately have "sublist (rev m) (rev a)" by (metis sublist_drop_left)
  then show ?thesis by simp
qed

lemma sublist_separator:
  assumes "c \<notin> set m"
  shows "sublist m (x @ c # rest) \<longleftrightarrow> sublist m x \<or> sublist m rest"
proof
  assume "sublist m (x @ c # rest)"
  then consider "sublist m x" | "sublist m (c # rest)"
    | xs1 xs2 where "m = xs1 @ xs2" "suffix xs1 x" "prefix xs2 (c # rest)"
    by (auto simp: sublist_append)
  then show "sublist m x \<or> sublist m rest"
  proof cases
    case 1
    then show ?thesis by simp
  next
    case 2
    with assms show ?thesis
      by (cases m) (auto simp: sublist_Cons_right)
  next
    case 3
    show ?thesis
    proof (cases xs2)
      case Nil
      with 3 show ?thesis by auto
    next
      case (Cons y ys)
      with 3 assms show ?thesis by auto
    qed
  qed
next
  assume "sublist m x \<or> sublist m rest"
  then show "sublist m (x @ c # rest)"
  proof
    assume "sublist m x"
    then show ?thesis by (auto simp: sublist_append)
  next
    assume "sublist m rest"
    then have "sublist m (c # rest)" by (simp add: sublist_Cons_right)
    then show ?thesis by (auto simp: sublist_append)
  qed
qed

lemma sublist_Join:
  "m \<noteq> [] \<Longrightarrow> c \<notin> set m \<Longrightarrow> sublist m (Join ls [c]) \<longleftrightarrow> (\<exists>l \<in> set ls. sublist m l)"
proof (induction ls "[c]" rule: Join.induct)
  case 1
  then show ?case by simp
next
  case (2 x)
  then show ?case by simp
next
  case (3 x y ys)
  then show ?case by (simp add: sublist_separator)
qed

lemma ToLower_Join:
  "toLower c = c \<Longrightarrow> ToLower (Join ls [c]) = Join (map ToLower ls) [c]"
  by (induction ls "[c]" rule: Join.induct) (simp_all add: ToLower_def)

subsection \<open>What \<open>getDoc\<close> reads\<close>

lemma leadingBlock_Cons:
  "leadingBlock (text # rest) = (if inLeadingBlock text then text # leadingBlock rest else [])"
  by (simp add: leadingBlock_def)

lemma scanDoc_docLines:
  "scanDoc content acc = Inr docLines \<Longrightarrow>
     docLines = acc @ map commentText (filter isCommentLine (leadingBlock content))"
proof (induction content arbitrary: acc)
  case Nil
  then show ?case by (simp add: leadingBlock_def)
next
  case (Cons ln rest)
  show ?case
  proof (cases "isCommentLine ln")
    case True
    with Cons.prems
    have "scanDoc rest (acc @ [commentText ln]) = Inr docLines"
      by (simp add: isCommentLine_def commentText_def Let_def split: if_splits)
    from Cons.IH [OF this] True show ?thesis
      by (simp add: leadingBlock_Cons inLeadingBlock_def)
  next
    case notComment: False
    show ?thesis
    proof (cases "isBlankLine ln \<or> isPackageLine ln")
      case True
      with Cons.prems notComment have "scanDoc rest acc = Inr docLines"
        by (auto simp: isCommentLine_def isBlankLine_def isPackageLine_def Let_def
            split: if_splits)
      from Cons.IH [OF this] True notComment show ?thesis
        by (auto simp: leadingBlock_Cons inLeadingBlock_def)
    next
      case False
      with Cons.prems notComment have "docLines = acc"
        by (auto simp: isCommentLine_def isBlankLine_def isPackageLine_def Let_def
            split: if_splits)
      with False notComment show ?thesis
        by (simp add: leadingBlock_Cons inLeadingBlock_def)
    qed
  qed
qed

lemma scanDoc_stops:
  "\<not> inLeadingBlock other \<Longrightarrow>
     scanDoc (blk @ other # rest) acc = scanDoc (blk @ [other]) acc"
proof (induction blk arbitrary: acc)
  case Nil
  then show ?case
    by (simp add: inLeadingBlock_def isCommentLine_def isBlankLine_def isPackageLine_def Let_def)
next
  case (Cons ln blk)
  then show ?case by (simp add: Let_def)
qed

lemma leadingBlock_next:
  "content = leadingBlock content @ other # rest \<Longrightarrow> \<not> inLeadingBlock other"
proof -
  assume a: "content = leadingBlock content @ other # rest"
  have "content = leadingBlock content @ dropWhile inLeadingBlock content"
    by (simp add: leadingBlock_def)
  with a have d: "dropWhile inLeadingBlock content = other # rest"
    by (metis same_append_eq)
  then have "other = hd (dropWhile inLeadingBlock content)" by simp
  moreover from d have "dropWhile inLeadingBlock content \<noteq> []" by simp
  ultimately show ?thesis by (metis hd_dropWhile)
qed

subsection \<open>Markers\<close>

lemma marker_shape:
  assumes "marker \<in> set markers"
  shows "marker \<noteq> []" "\<not> isSpace (hd marker)" "hd marker \<noteq> CHR ''/''"
    "\<not> isSpace (last marker)" "CHR 0x0A \<notin> set marker"
  using assms by (auto simp: markers_def isSpace_def)

lemma comment_line_contains:
  assumes "isCommentLine text" and "m \<noteq> []" and "\<not> isSpace (hd m)" and "hd m \<noteq> CHR ''/''"
    and "\<not> isSpace (last m)"
  shows "Contains (ToLower text) m \<longleftrightarrow> Contains (ToLower (commentText text)) m"
proof -
  obtain a b where ab: "text = a @ TrimSpace text @ b"
    "\<forall>c \<in> set a. isSpace c" "\<forall>c \<in> set b. isSpace c"
    using TrimSpace_decomp by blast
  let ?r = "TrimPrefix (TrimSpace text) ''//''"
  from assms(1) have t: "TrimSpace text = ''//'' @ ?r"
    unfolding isCommentLine_def by (rule TrimPrefix_decomp)
  obtain a' b' where ab': "?r = a' @ commentText text @ b'"
    "\<forall>c \<in> set a'. isSpace c" "\<forall>c \<in> set b'. isSpace c"
    unfolding commentText_def using TrimSpace_decomp by blast
  let ?t = "ToLower (commentText text)"
  have "text = a @ ''//'' @ a' @ commentText text @ b' @ b"
    using ab(1) t ab'(1) by simp
  then have "ToLower text = ToLower a @ ToLower ''//'' @ ToLower a' @ ?t @ ToLower b' @ ToLower b"
    by (metis ToLower_append)
  moreover have "ToLower ''//'' = ''//''" by (simp add: ToLower_def toLower_def)
  ultimately have low: "ToLower text = a @ ''//'' @ a' @ ?t @ (b' @ b)"
    using ab(2,3) ab'(2,3) by (simp add: ToLower_spaces)
  show ?thesis
  proof
    assume "Contains (ToLower text) m"
    then have "sublist m (a @ ''//'' @ a' @ ?t @ (b' @ b))"
      by (simp only: Contains_def low)
    moreover have "hd m \<notin> set a" using ab(2) assms(3) by blast
    ultimately have "sublist m (''//'' @ a' @ ?t @ (b' @ b))"
      using assms(2) by (metis sublist_drop_left)
    moreover have "hd m \<notin> set ''//''" using assms(4) by simp
    ultimately have "sublist m (a' @ ?t @ (b' @ b))"
      using assms(2) by (metis sublist_drop_left)
    moreover have "hd m \<notin> set a'" using ab'(2) assms(3) by blast
    ultimately have "sublist m (?t @ (b' @ b))"
      using assms(2) by (metis sublist_drop_left)
    moreover have "last m \<notin> set (b' @ b)" using ab(3) ab'(3) assms(5) by auto
    ultimately have "sublist m ?t"
      using assms(2) by (metis sublist_drop_right)
    then show "Contains ?t m" by (simp add: Contains_def)
  next
    assume "Contains ?t m"
    then have "sublist m ?t" by (simp add: Contains_def)
    moreover have "sublist ?t (ToLower text)"
      unfolding low by (metis append.assoc sublist_appendI)
    ultimately have "sublist m (ToLower text)" by (rule sublist_order.order_trans)
    then show "Contains (ToLower text) m" by (simp add: Contains_def)
  qed
qed

lemma isGenerated_docLines:
  "isGeneratedFileByComment (Join docLines [CHR 0x0A]) \<longleftrightarrow>
     (\<exists>marker \<in> set markers. \<exists>l \<in> set docLines. Contains (ToLower l) marker)"
proof -
  have nl: "toLower (CHR 0x0A) = CHR 0x0A" by (simp add: toLower_def)
  have "Contains (ToLower (Join docLines [CHR 0x0A])) marker
        \<longleftrightarrow> (\<exists>l \<in> set docLines. Contains (ToLower l) marker)"
    if "marker \<in> set markers" for marker
    using marker_shape(1,5) [OF that]
    by (simp add: Contains_def ToLower_Join [OF nl] sublist_Join)
  then show ?thesis
    by (auto simp: isGeneratedFileByComment_def Let_def list_ex_iff)
qed

subsection \<open>Classification\<close>

lemmas autogen_defs = getDoc_def isGeneratedFileByComment_def markers_def Contains_def
  ToLower_def toLower_def TrimSpace_def TrimPrefix_def HasPrefix_def isSpace_def
  maxTokenSize_def sublist_code Let_def

lemmas line_defs = leadingBlock_def inLeadingBlock_def isCommentLine_def isBlankLine_def
  isPackageLine_def

text \<open>
  Claim C7, as amended. When the file is read without error, it is classified as
  generated exactly when a \<open>//\<close> comment line of its leading block (the lines that are
  blank, a \<open>//\<close> comment or start with \<open>package\<close>, up to the first other line) holds one
  of the marker phrases, letters compared without case; and what follows the first line
  after the leading block has no influence on the result.
\<close>

theorem generated_iff_marker_in_leading_comments:
  assumes "fs filePath = Some content" and "getDoc fs filePath = Inr doc"
  shows "(isGeneratedFileByComment doc \<longleftrightarrow>
            (\<exists>ln \<in> set (leadingBlock content).
               isCommentLine ln \<and> (\<exists>marker \<in> set markers. Contains (ToLower ln) marker)))
       \<and> (\<forall>other rest rest'.
             content = leadingBlock content @ other # rest \<longrightarrow>
             getDoc (fs(filePath \<mapsto> leadingBlock content @ other # rest')) filePath = Inr doc)"
proof (intro conjI allI impI)
  from assms obtain docLines where dl: "scanDoc content [] = Inr docLines"
    and doc: "doc = Join docLines [CHR 0x0A]"
    by (auto simp: getDoc_def split: sum.splits)
  from scanDoc_docLines [OF dl]
  have docLines: "docLines = map commentText (filter isCommentLine (leadingBlock content))"
    by simp
  have "isGeneratedFileByComment doc \<longleftrightarrow>
      (\<exists>marker \<in> set markers. \<exists>ln \<in> set (leadingBlock content).
          isCommentLine ln \<and> Contains (ToLower (commentText ln)) marker)"
    unfolding doc isGenerated_docLines docLines by auto
  also have "\<dots> \<longleftrightarrow> (\<exists>marker \<in> set markers. \<exists>ln \<in> set (leadingBlock content).
          isCommentLine ln \<and> Contains (ToLower ln) marker)"
    using comment_line_contains marker_shape by (metis (no_types, lifting))
  finally show "isGeneratedFileByComment doc \<longleftrightarrow>
            (\<exists>ln \<in> set (leadingBlock content).
               isCommentLine ln \<and> (\<exists>marker \<in> set markers. Contains (ToLower ln) marker))"
    by blast
next
  fix other rest rest'
  assume c: "content = leadingBlock content @ other # rest"
  then have n: "\<not> inLeadingBlock other" by (rule leadingBlock_next)
  have "scanDoc (leadingBlock content @ other # rest') [] = scanDoc (leadingBlock content @ [other]) []"
    using n by (rule scanDoc_stops)
  also have "\<dots> = scanDoc (leadingBlock content @ other # rest) []"
    using n by (rule scanDoc_stops [symmetric])
  also have "\<dots> = scanDoc content []" using c by simp
  finally show "getDoc (fs(filePath \<mapsto> leadingBlock content @ other # rest')) filePath = Inr doc"
    using assms by (simp add: getDoc_def)
qed

lemma zz_doc:
  "getDoc example_files ''zz_generated.go'' = Inr ''Code generated by tool; DO NOT EDIT.''"
  by (simp add: example_files_def getDoc_def TrimSpace_def TrimPrefix_def HasPrefix_def
      isSpace_def maxTokenSize_def Let_def)

lemma zz_block:
  "leadingBlock [''// Code generated by tool; DO NOT EDIT.'', ''package zz'', [], ''func f() {}'',
         ''var x = 1'']
   = [''// Code generated by tool; DO NOT EDIT.'', ''package zz'', []]"
  by (simp add: line_defs TrimSpace_def HasPrefix_def isSpace_def)

lemma late_doc: "getDoc example_files ''late.go'' = Inr []"
  by (simp add: example_files_def getDoc_def TrimSpace_def TrimPrefix_def HasPrefix_def
      isSpace_def maxTokenSize_def Let_def)

lemma pkgline_doc: "getDoc example_files ''pkgline.go'' = Inr []"
  by (simp add: example_files_def getDoc_def TrimSpace_def TrimPrefix_def HasPrefix_def
      isSpace_def maxTokenSize_def Let_def)

lemma not_generated_empty: "\<not> isGeneratedFileByComment []"
  by (simp add: isGeneratedFileByComment_def markers_def Contains_def ToLower_def)

lemma zz_generated: "isGeneratedFileByComment ''Code generated by tool; DO NOT EDIT.''"
  by (simp add: isGeneratedFileByComment_def markers_def Contains_def ToLower_def toLower_def
      sublist_code)

lemma late_block:
  "leadingBlock [''package late'', [], ''func f() {}'', ''// DO NOT EDIT'']
     = [''package late'', []]"
  by (simp add: line_defs TrimSpace_def HasPrefix_def isSpace_def)

text \<open>
  Claim C7, as amended, at a file with the marker in its leading comment, which is
  classified as generated, and at a file with the marker only after its first
  declaration, which is not.
\<close>

theorem generated_iff_marker_in_leading_comments_witness:
  "getDoc example_files ''zz_generated.go'' = Inr ''Code generated by tool; DO NOT EDIT.''
   \<and> isGeneratedFileByComment ''Code generated by tool; DO NOT EDIT.''
   \<and> getDoc example_files ''late.go'' = Inr []
   \<and> \<not> isGeneratedFileByComment []"
proof -
  let ?zz = "[''// Code generated by tool; DO NOT EDIT.'', ''package zz'', [], ''func f() {}'',
         ''var x = 1'']"
  let ?late = "[''package late'', [], ''func f() {}'', ''// DO NOT EDIT'']"
  have f1: "example_files ''zz_generated.go'' = Some ?zz" by (simp add: example_files_def)
  have f2: "example_files ''late.go'' = Some ?late" by (simp add: example_files_def)
  have m: "''do not edit'' \<in> set markers" by (simp add: markers_def)
  have c: "isCommentLine ''// Code generated by tool; DO NOT EDIT.''"
    by (simp add: isCommentLine_def TrimSpace_def HasPrefix_def isSpace_def)
  have l: "Contains (ToLower ''// Code generated by tool; DO NOT EDIT.'') ''do not edit''"
    by (simp add: Contains_def ToLower_def toLower_def sublist_code)
  have "\<exists>ln \<in> set (leadingBlock ?zz).
           isCommentLine ln \<and> (\<exists>marker \<in> set markers. Contains (ToLower ln) marker)"
    unfolding zz_block using m c l by auto
  with generated_iff_marker_in_leading_comments [OF f1 zz_doc]
  have g: "isGeneratedFileByComment ''Code generated by tool; DO NOT EDIT.''" by blast
  have "\<not> (\<exists>ln \<in> set (leadingBlock ?late).
           isCommentLine ln \<and> (\<exists>marker \<in> set markers. Contains (ToLower ln) marker))"
    unfolding late_block
    by (simp add: isCommentLine_def TrimSpace_def HasPrefix_def isSpace_def)
  with generated_iff_marker_in_leading_comments [OF f2 late_doc]
  have "\<not> isGeneratedFileByComment []" by blast
  with g zz_doc late_doc show ?thesis by simp
qed

text \<open>
  Claim C7 as stated fails: the leading block of this file is its package clause and a
  blank line, the package clause holds \<open>DO NOT EDIT\<close>, and the file is not classified as
  generated, because only the text of \<open>//\<close> comment lines is searched.
\<close>

theorem marker_on_package_line_counterexample:
  "example_files ''pkgline.go''
     = Some [''package main // Code generated by tool; DO NOT EDIT.'', [], ''func main() {}'']
   \<and> leadingBlock [''package main // Code generated by tool; DO NOT EDIT.'', [], ''func main() {}'']
     = [''package main // Code generated by tool; DO NOT EDIT.'', []]
   \<and> isPackageLine ''package main // Code generated by tool; DO NOT EDIT.''
   \<and> Contains (ToLower ''package main // Code generated by tool; DO NOT EDIT.'') ''do not edit''
   \<and> getDoc example_files ''pkgline.go'' = Inr []
   \<and> \<not> isGeneratedFileByComment []"
proof -
  have "leadingBlock [''package main // Code generated by tool; DO NOT EDIT.'', [], ''func main() {}'']
     = [''package main // Code generated by tool; DO NOT EDIT.'', []]"
    by (simp add: line_defs TrimSpace_def HasPrefix_def isSpace_def)
  moreover have "isPackageLine ''package main // Code generated by tool; DO NOT EDIT.''"
    by (simp add: isPackageLine_def TrimSpace_def HasPrefix_def isSpace_def)
  moreover have "Contains (ToLower ''package main // Code generated by tool; DO NOT EDIT.'') ''do not edit''"
    by (simp add: Contains_def ToLower_def toLower_def sublist_code)
  moreover have "example_files ''pkgline.go''
     = Some [''package main // Code generated by tool; DO NOT EDIT.'', [], ''func main() {}'']"
    by (simp add: example_files_def)
  ultimately show ?thesis using pkgline_doc not_generated_empty by simp
qed

subsection \<open>The cache of file summaries\<close>

lemma getOrCreateFileSummary_cached:
  "fileSummaryCache p (FilePath i) = Some summary \<Longrightarrow>
     getOrCreateFileSummary fs p i = (p, Inr summary)"
  by (simp add: getOrCreateFileSummary_def)

lemma getOrCreateFileSummary_error:
  "getOrCreateFileSummary fs p i = (p', Inl err) \<Longrightarrow>
     fileSummaryCache p (FilePath i) = None
     \<and> p' = p\<lparr>fileSummaryCache := (fileSummaryCache p)(FilePath i \<mapsto> \<lparr>isGenerated = False\<rparr>)\<rparr>
     \<and> (FilePath i = [] \<or> (\<exists>e. getDoc fs (FilePath i) = Inl e))"
  by (auto simp: getOrCreateFileSummary_def Let_def split: option.splits if_splits sum.splits)

lemma shouldPassIssue_error:
  "AutogeneratedExclude_shouldPassIssue fs p i = (p', Inl err) \<Longrightarrow>
     FromLinter i \<noteq> ''typecheck'' \<and> \<not> isSpecialAutogeneratedFile (FilePath i)
     \<and> getOrCreateFileSummary fs p i = (p', Inl err)"
  by (auto simp: AutogeneratedExclude_shouldPassIssue_def split: if_splits prod.splits sum.splits)

lemma shouldPassIssue_keeps_entry:
  "fileSummaryCache p k = Some summary \<Longrightarrow>
     fileSummaryCache (fst (AutogeneratedExclude_shouldPassIssue fs p j)) k = Some summary"
  by (auto simp: AutogeneratedExclude_shouldPassIssue_def getOrCreateFileSummary_def Let_def
      split: option.splits sum.splits)

lemma after_issues_keeps_entry:
  "fileSummaryCache p k = Some summary \<Longrightarrow>
     fileSummaryCache (after_issues fs p js) k = Some summary"
  unfolding after_issues_def
  by (induction js arbitrary: p) (simp_all add: shouldPassIssue_keeps_entry)

lemma shouldPassIssue_memoized_failure:
  assumes "fileSummaryCache p (FilePath j) = Some \<lparr>isGenerated = False\<rparr>"
    and "\<not> isSpecialAutogeneratedFile (FilePath j)"
  shows "AutogeneratedExclude_shouldPassIssue fs p j = (p, Inr True)"
  using assms
  by (simp add: AutogeneratedExclude_shouldPassIssue_def getOrCreateFileSummary_cached)

text \<open>
  Claim C10. When \<open>shouldPassIssue\<close> fails on an issue, the file could not be read or
  has no path, and the cache already holds the zero summary for the path; whatever
  issues are examined next, every later issue with that path passes, with no error and
  no change of the cache.
\<close>

theorem failed_summary_is_memoized:
  assumes "AutogeneratedExclude_shouldPassIssue fs p i = (p', Inl err)"
  shows "fileSummaryCache p (FilePath i) = None
       \<and> (FilePath i = [] \<or> (\<exists>e. getDoc fs (FilePath i) = Inl e))
       \<and> fileSummaryCache p' (FilePath i) = Some \<lparr>isGenerated = False\<rparr>
       \<and> (\<forall>js j. FilePath j = FilePath i \<longrightarrow>
             AutogeneratedExclude_shouldPassIssue fs (after_issues fs p' js) j
               = (after_issues fs p' js, Inr True))"
proof -
  from shouldPassIssue_error [OF assms]
  have ns: "\<not> isSpecialAutogeneratedFile (FilePath i)"
    and g: "getOrCreateFileSummary fs p i = (p', Inl err)" by simp_all
  from getOrCreateFileSummary_error [OF g]
  have n: "fileSummaryCache p (FilePath i) = None"
    and r: "FilePath i = [] \<or> (\<exists>e. getDoc fs (FilePath i) = Inl e)"
    and c: "fileSummaryCache p' (FilePath i) = Some \<lparr>isGenerated = False\<rparr>"
    by simp_all
  have "AutogeneratedExclude_shouldPassIssue fs (after_issues fs p' js) j
               = (after_issues fs p' js, Inr True)"
    if "FilePath j = FilePath i" for js j
    using that ns after_issues_keeps_entry [OF c, of fs js]
    by (intro shouldPassIssue_memoized_failure) simp_all
  with n r c show ?thesis by blast
qed

text \<open>
  Claim C10 for a file that does not exist: the first issue fails, the second issue of
  the same file passes, also after an issue of another file has been examined.
\<close>

theorem failed_summary_is_memoized_witness:
  "snd (AutogeneratedExclude_shouldPassIssue example_files NewAutogeneratedExclude
          (example_issue ''golint'' ''missing.go'' 1))
     = Inl (FailedToGetDoc ''missing.go'' FailedToOpenFile)
   \<and> snd (AutogeneratedExclude_shouldPassIssue example_files
          (after_issues example_files
             (fst (AutogeneratedExclude_shouldPassIssue example_files NewAutogeneratedExclude
                     (example_issue ''golint'' ''missing.go'' 1)))
             [example_issue ''golint'' ''plain.go'' 1])
          (example_issue ''errcheck'' ''missing.go'' 7))
     = Inr True"
proof -
  let ?i = "example_issue ''golint'' ''missing.go'' 1"
  let ?j = "example_issue ''errcheck'' ''missing.go'' 7"
  obtain p' where p': "AutogeneratedExclude_shouldPassIssue example_files NewAutogeneratedExclude ?i
      = (p', Inl (FailedToGetDoc ''missing.go'' FailedToOpenFile))"
    by (simp add: AutogeneratedExclude_shouldPassIssue_def getOrCreateFileSummary_def
        NewAutogeneratedExclude_def example_issue_def isSpecialAutogeneratedFile_def
        filepath_Base_def getDoc_def example_files_def Let_def)
  have "FilePath ?j = FilePath ?i" by (simp add: example_issue_def)
  with failed_summary_is_memoized [OF p']
  have "AutogeneratedExclude_shouldPassIssue example_files
          (after_issues example_files p' [example_issue ''golint'' ''plain.go'' 1]) ?j
        = (after_issues example_files p' [example_issue ''golint'' ''plain.go'' 1], Inr True)"
    by blast
  with p' show ?thesis by simp
qed

subsection \<open>Dropping the issues of generated files\<close>

lemma cacheAgrees_New: "cacheAgrees fs NewAutogeneratedExclude"
  by (simp add: cacheAgrees_def NewAutogeneratedExclude_def)

lemma shouldPassIssue_agrees:
  assumes "cacheAgrees fs p"
    and "AutogeneratedExclude_shouldPassIssue fs p i = (p', Inr ok)"
  shows "cacheAgrees fs p'
       \<and> (ok \<longleftrightarrow> FromLinter i = ''typecheck'' \<or> \<not> isGeneratedFile fs (FilePath i))"
proof (cases "FromLinter i = ''typecheck''")
  case True
  with assms show ?thesis by (simp add: AutogeneratedExclude_shouldPassIssue_def)
next
  case nt: False
  show ?thesis
  proof (cases "isSpecialAutogeneratedFile (FilePath i)")
    case True
    with nt assms show ?thesis
      by (auto simp: AutogeneratedExclude_shouldPassIssue_def isGeneratedFile_def)
  next
    case ns: False
    show ?thesis
    proof (cases "fileSummaryCache p (FilePath i)")
      case (Some summary)
      with assms(1) obtain doc where "getDoc fs (FilePath i) = Inr doc"
        "isGenerated summary = isGeneratedFileByComment doc"
        unfolding cacheAgrees_def by blast
      with Some nt ns assms show ?thesis
        by (auto simp: AutogeneratedExclude_shouldPassIssue_def getOrCreateFileSummary_cached
            isGeneratedFile_def)
    next
      case None
      with nt ns assms(2) obtain doc where doc: "getDoc fs (FilePath i) = Inr doc"
        and p': "p' = p\<lparr>fileSummaryCache := (fileSummaryCache p)
                    (FilePath i \<mapsto> \<lparr>isGenerated = isGeneratedFileByComment doc\<rparr>)\<rparr>"
        and ok: "ok = (\<not> isGeneratedFileByComment doc)"
        by (auto simp: AutogeneratedExclude_shouldPassIssue_def getOrCreateFileSummary_def
            Let_def split: if_splits sum.splits)
      from assms(1) doc have "cacheAgrees fs p'"
        unfolding p' cacheAgrees_def by auto
      with doc ok nt ns show ?thesis by (simp add: isGeneratedFile_def)
    qed
  qed
qed

lemma filterIssuesErr_agrees:
  "cacheAgrees fs p \<Longrightarrow>
   filterIssuesErr (AutogeneratedExclude_shouldPassIssue fs) p issues = (p', Inr out) \<Longrightarrow>
     out = filter (\<lambda>i. FromLinter i = ''typecheck'' \<or> \<not> isGeneratedFile fs (FilePath i)) issues"
proof (induction issues arbitrary: p out)
  case Nil
  then show ?case by simp
next
  case (Cons i issues)
  from Cons.prems(2) obtain p1 ok where s: "AutogeneratedExclude_shouldPassIssue fs p i = (p1, Inr ok)"
    by (auto split: prod.splits sum.splits)
  with Cons.prems(2) obtain ret where
    r: "filterIssuesErr (AutogeneratedExclude_shouldPassIssue fs) p1 issues = (p', Inr ret)"
    and out: "out = (if ok then i # ret else ret)"
    by (auto split: prod.splits sum.splits)
  from shouldPassIssue_agrees [OF Cons.prems(1) s]
  have a: "cacheAgrees fs p1"
    and ok: "ok \<longleftrightarrow> FromLinter i = ''typecheck'' \<or> \<not> isGeneratedFile fs (FilePath i)"
    by simp_all
  from Cons.IH [OF a r] out ok show ?case by simp
qed

text \<open>
  Claim C8, as amended. \<open>shouldPassIssue\<close>, when it returns no error on a cache that
  agrees with the files (as the fresh cache does, and as the cache does afterwards),
  admits an issue exactly when it comes from \<open>typecheck\<close> or its file is not generated.
  So the output of the stage, when it returns no error, is its input without the issues
  that are in a generated file and do not come from \<open>typecheck\<close>. The stage is built
  without configuration, so no rule of the user reaches it.
\<close>

theorem generated_file_issues_are_dropped:
  "cacheAgrees fs NewAutogeneratedExclude
   \<and> (cacheAgrees fs p \<and> AutogeneratedExclude_shouldPassIssue fs p i = (p', Inr ok) \<longrightarrow>
        cacheAgrees fs p'
        \<and> (ok \<longleftrightarrow> FromLinter i = ''typecheck'' \<or> \<not> isGeneratedFile fs (FilePath i)))
   \<and> (AutogeneratedExclude_Process fs NewAutogeneratedExclude issues = (q, Inr out) \<longrightarrow>
        out = filter (\<lambda>i. FromLinter i = ''typecheck'' \<or> \<not> isGeneratedFile fs (FilePath i)) issues
        \<and> Process (AutogeneratedExclude_stage fs) issues = (out, None))"
proof (intro conjI impI)
  show "cacheAgrees fs NewAutogeneratedExclude" by (rule cacheAgrees_New)
next
  assume "cacheAgrees fs p \<and> AutogeneratedExclude_shouldPassIssue fs p i = (p', Inr ok)"
  then have r: "cacheAgrees fs p'
      \<and> (ok \<longleftrightarrow> FromLinter i = ''typecheck'' \<or> \<not> isGeneratedFile fs (FilePath i))"
    using shouldPassIssue_agrees by blast
  from r show "cacheAgrees fs p'" by (rule conjunct1)
  from r show "ok \<longleftrightarrow> FromLinter i = ''typecheck'' \<or> \<not> isGeneratedFile fs (FilePath i)"
    by (rule conjunct2)
next
  assume a: "AutogeneratedExclude_Process fs NewAutogeneratedExclude issues = (q, Inr out)"
  then show "out = filter (\<lambda>i. FromLinter i = ''typecheck'' \<or> \<not> isGeneratedFile fs (FilePath i)) issues"
    unfolding AutogeneratedExclude_Process_def
    by (rule filterIssuesErr_agrees [OF cacheAgrees_New])
  from a show "Process (AutogeneratedExclude_stage fs) issues = (out, None)"
    by (simp add: AutogeneratedExclude_stage_def)
qed

lemmas age_defs = AutogeneratedExclude_Process_def AutogeneratedExclude_shouldPassIssue_def
  getOrCreateFileSummary_def NewAutogeneratedExclude_def isSpecialAutogeneratedFile_def
  filepath_Base_def example_issue_def

lemma zz_Process:
  "snd (AutogeneratedExclude_Process example_files NewAutogeneratedExclude
          [example_issue ''golint'' ''zz_generated.go'' 5,
           example_issue ''typecheck'' ''zz_generated.go'' 6,
           example_issue ''golint'' ''plain.go'' 1])
     = Inr [example_issue ''typecheck'' ''zz_generated.go'' 6,
            example_issue ''golint'' ''plain.go'' 1]"
proof -
  have plain: "getDoc example_files ''plain.go'' = Inr ''Package plain is written by hand.''"
    by (simp add: example_files_def getDoc_def TrimSpace_def TrimPrefix_def HasPrefix_def
      isSpace_def maxTokenSize_def Let_def)
  have np: "\<not> isGeneratedFileByComment ''Package plain is written by hand.''"
    by (simp add: isGeneratedFileByComment_def markers_def Contains_def ToLower_def toLower_def
      sublist_code)
  show ?thesis
    by (simp add: age_defs zz_doc zz_generated plain np Let_def)
qed

text \<open>
  Claim C8, as amended: of an issue of \<open>golint\<close> and an issue of \<open>typecheck\<close> in the
  generated file and an issue in a file written by hand, the stage drops the first.
\<close>

theorem generated_file_issues_are_dropped_witness:
  "snd (AutogeneratedExclude_Process example_files NewAutogeneratedExclude
          [example_issue ''golint'' ''zz_generated.go'' 5,
           example_issue ''typecheck'' ''zz_generated.go'' 6,
           example_issue ''golint'' ''plain.go'' 1])
     = Inr [example_issue ''typecheck'' ''zz_generated.go'' 6,
            example_issue ''golint'' ''plain.go'' 1]
   \<and> Process (AutogeneratedExclude_stage example_files)
          [example_issue ''golint'' ''zz_generated.go'' 5,
           example_issue ''typecheck'' ''zz_generated.go'' 6,
           example_issue ''golint'' ''plain.go'' 1]
     = ([example_issue ''typecheck'' ''zz_generated.go'' 6,
            example_issue ''golint'' ''plain.go'' 1], None)"
proof -
  let ?is = "[example_issue ''golint'' ''zz_generated.go'' 5,
           example_issue ''typecheck'' ''zz_generated.go'' 6,
           example_issue ''golint'' ''plain.go'' 1]"
  let ?out = "[example_issue ''typecheck'' ''zz_generated.go'' 6,
            example_issue ''golint'' ''plain.go'' 1]"
  obtain p' where "AutogeneratedExclude_Process example_files NewAutogeneratedExclude ?is
      = (p', Inr ?out)"
    using zz_Process by (metis prod.collapse)
  with generated_file_issues_are_dropped [of example_files _ _ _ _ ?is p' ?out] zz_Process
  show ?thesis by simp
qed

text \<open>
  Claim C8 as stated fails. The file \<open>zz_generated.go\<close> holds the marker comment and a
  task reports an issue on its line 5: the stage drops the issue, and a run whose
  pipeline is this stage returns no issue. Nothing of the configuration enters the
  stage, so no include rule can keep the issue.
\<close>

theorem generated_file_issue_dropped_counterexample:
  "isGeneratedFile example_files ''zz_generated.go''
   \<and> snd (AutogeneratedExclude_Process example_files NewAutogeneratedExclude
            [example_issue ''golint'' ''zz_generated.go'' 5]) = Inr []
   \<and> Run id \<lparr>lintCtx = (), Processors = [AutogeneratedExclude_stage example_files]\<rparr>
        [reporting_linter ''golint'' [example_issue [] ''zz_generated.go'' 5]]
      = ([], None)"
proof -
  have g: "isGeneratedFile example_files ''zz_generated.go''"
    by (simp add: isGeneratedFile_def zz_doc zz_generated)
  have p: "snd (AutogeneratedExclude_Process example_files NewAutogeneratedExclude
            [example_issue ''golint'' ''zz_generated.go'' 5]) = Inr []"
    by (simp add: age_defs zz_doc zz_generated Let_def)
  have s: "Process (AutogeneratedExclude_stage example_files)
             [example_issue ''golint'' ''zz_generated.go'' 5] = ([], None)"
    using p by (simp add: AutogeneratedExclude_stage_def)
  have "rs_issues (Run_state id \<lparr>lintCtx = (), Processors = [AutogeneratedExclude_stage example_files]\<rparr>
        [reporting_linter ''golint'' [example_issue [] ''zz_generated.go'' 5]])
      = [example_issue ''golint'' ''zz_generated.go'' 5]"
    by (simp add: Run_state_def run_linters_def run_linter_def runLinterSafe_def stamp_def
        reporting_linter_def example_linter_def example_issue_def)
  moreover have "rs_lintErrors (Run_state id \<lparr>lintCtx = (), Processors = [AutogeneratedExclude_stage example_files]\<rparr>
        [reporting_linter ''golint'' [example_issue [] ''zz_generated.go'' 5]]) = None"
    by (simp add: Run_state_def run_linters_def run_linter_def runLinterSafe_def stamp_def
        reporting_linter_def example_linter_def example_issue_def)
  ultimately have "Run id \<lparr>lintCtx = (), Processors = [AutogeneratedExclude_stage example_files]\<rparr>
        [reporting_linter ''golint'' [example_issue [] ''zz_generated.go'' 5]] = ([], None)"
    using s by (simp add: Run_def processLintResults_def processIssues_def process_stage_def Let_def)
  with g p show ?thesis by simp
qed

section \<open>Properties of the exclusion of directories\<close>

lemma absArgs_dirs:
  "absArgs env args = Inr dirs \<Longrightarrow>
     set dirs = {a. \<exists>arg \<in> set args. filepath_Abs env (argDir env arg) = Inr a}"
proof (induction args arbitrary: dirs)
  case Nil
  then show ?case by simp
next
  case (Cons arg args)
  from Cons.prems obtain a ds where a: "filepath_Abs env (argDir env arg) = Inr a"
    and ds: "absArgs env args = Inr ds" and dirs: "dirs = a # ds"
    by (auto simp: Let_def split: sum.splits)
  from Cons.IH [OF ds] a dirs show ?case by auto
qed

lemma NewSkipDirs_fields:
  assumes "NewSkipDirs env pats runArgs pfx = Inr p"
  shows "skippedDirsCache p = Map.empty"
    and "set (absArgsDirs p) =
           {a. \<exists>arg \<in> set (if runArgs = [] then [''./...''] else runArgs).
                 filepath_Abs env (argDir env arg) = Inr a}"
proof -
  let ?args = "if length runArgs = 0 then runArgs @ [''./...''] else runArgs"
  from assms obtain res dirs where d: "absArgs env ?args = Inr dirs"
    and p: "p = \<lparr>patterns = res, skippedDirs = Map.empty, absArgsDirs = dirs,
                 skippedDirsCache = Map.empty, pathPrefix = pfx\<rparr>"
    by (auto simp: NewSkipDirs_def Let_def split: sum.splits)
  from p show "skippedDirsCache p = Map.empty" by simp
  from absArgs_dirs [OF d] p
  show "set (absArgsDirs p) =
           {a. \<exists>arg \<in> set (if runArgs = [] then [''./...''] else runArgs).
                 filepath_Abs env (argDir env arg) = Inr a}"
    by (cases runArgs) auto
qed

lemma NewSkipDirs_skipInv: "NewSkipDirs env pats runArgs pfx = Inr p \<Longrightarrow> skipInv env p"
  by (simp add: skipInv_def NewSkipDirs_fields(1))

lemma countSkipped_Some:
  "countSkipped p dir = Some p' \<Longrightarrow>
     absArgsDirs p' = absArgsDirs p \<and> skippedDirsCache p' = skippedDirsCache p
     \<and> patterns p' = patterns p
     \<and> (\<forall>d. skippedDirs p d \<noteq> None \<longrightarrow> skippedDirs p' d \<noteq> None)"
  by (auto simp: countSkipped_def split: option.splits)

lemma countSkipped_defined: "skippedDirs p dir \<noteq> None \<Longrightarrow> \<exists>p'. countSkipped p dir = Some p'"
  by (auto simp: countSkipped_def split: option.splits)

lemma shouldPassIssueDirs_result:
  "\<exists>p' toPass. SkipDirs_shouldPassIssueDirs env p relDir absDir = Some (p', toPass)
      \<and> absArgsDirs p' = absArgsDirs p \<and> skippedDirsCache p' = skippedDirsCache p
      \<and> patterns p' = patterns p
      \<and> (\<forall>d. skippedDirs p d \<noteq> None \<longrightarrow> skippedDirs p' d \<noteq> None)
      \<and> (absDir \<in> set (absArgsDirs p) \<longrightarrow> toPass)
      \<and> (\<not> toPass \<longrightarrow> skippedDirs p' relDir \<noteq> None)"
proof (cases "absDir \<in> set (absArgsDirs p)")
  case True
  then show ?thesis
    by (auto simp: SkipDirs_shouldPassIssueDirs_def list_ex_iff)
next
  case nin: False
  let ?path = "WithPathPrefix env (pathPrefix p) relDir"
  show ?thesis
  proof (cases "find (\<lambda>pattern. MatchString env pattern ?path) (patterns p)")
    case None
    with nin show ?thesis
      by (auto simp: SkipDirs_shouldPassIssueDirs_def list_ex_iff)
  next
    case (Some pattern)
    let ?p1 = "if skippedDirs p relDir = None
               then p\<lparr>skippedDirs := (skippedDirs p)(relDir \<mapsto>
                        \<lparr>stat_pattern = regexp_String env pattern, stat_count = 0\<rparr>)\<rparr>
               else p"
    have d1: "skippedDirs ?p1 relDir \<noteq> None" by auto
    then obtain p2 where p2: "countSkipped ?p1 relDir = Some p2"
      using countSkipped_defined by blast
    from countSkipped_Some [OF p2] d1
    have "absArgsDirs p2 = absArgsDirs p" "skippedDirsCache p2 = skippedDirsCache p"
      "patterns p2 = patterns p" "\<forall>d. skippedDirs p d \<noteq> None \<longrightarrow> skippedDirs p2 d \<noteq> None"
      "skippedDirs p2 relDir \<noteq> None"
      by (auto split: if_splits)
    moreover have "SkipDirs_shouldPassIssueDirs env p relDir absDir = Some (p2, False)"
      using nin Some p2 by (simp add: SkipDirs_shouldPassIssueDirs_def list_ex_iff Let_def)
    ultimately show ?thesis using nin by auto
  qed
qed

lemma shouldPassIssue_result:
  assumes "skipInv env p"
  shows "\<exists>p' toPass. SkipDirs_shouldPassIssue env p i = Some (p', toPass)
      \<and> skipInv env p' \<and> absArgsDirs p' = absArgsDirs p \<and> patterns p' = patterns p
      \<and> ((\<exists>a. filepath_Abs env (filepath_Dir env (FilePath i)) = Inr a
               \<and> a \<in> set (absArgsDirs p)) \<longrightarrow> toPass)"
proof (cases "filepath_IsAbs env (FilePath i)")
  case True
  with assms show ?thesis by (auto simp: SkipDirs_shouldPassIssue_def)
next
  case na: False
  let ?dir = "filepath_Dir env (FilePath i)"
  show ?thesis
  proof (cases "skippedDirsCache p ?dir")
    case (Some toPass)
    show ?thesis
    proof (cases toPass)
      case True
      with na Some assms show ?thesis by (auto simp: SkipDirs_shouldPassIssue_def)
    next
      case False
      with Some have "skippedDirsCache p ?dir = Some False" by simp
      with assms have sd: "skippedDirs p ?dir \<noteq> None"
        and ex: "\<exists>a. filepath_Abs env ?dir = Inr a \<and> a \<notin> set (absArgsDirs p)"
        unfolding skipInv_def by blast+
      from sd obtain p' where p': "countSkipped p ?dir = Some p'"
        using countSkipped_defined by blast
      from countSkipped_Some [OF p']
      have k: "absArgsDirs p' = absArgsDirs p" "skippedDirsCache p' = skippedDirsCache p"
        "patterns p' = patterns p" "\<forall>d. skippedDirs p d \<noteq> None \<longrightarrow> skippedDirs p' d \<noteq> None"
        by blast+
      have inv: "skipInv env p'"
        unfolding skipInv_def k(1,2) using assms k(4) unfolding skipInv_def by blast
      have res: "SkipDirs_shouldPassIssue env p i = Some (p', False)"
        using na Some False p' by (simp add: SkipDirs_shouldPassIssue_def)
      have nex: "\<not> (\<exists>a. filepath_Abs env ?dir = Inr a \<and> a \<in> set (absArgsDirs p))"
        using ex by auto
      show ?thesis
        by (intro exI [of _ p'] exI [of _ False]) (simp add: res inv k(1,3) nex)
    qed
  next
    case None
    show ?thesis
    proof (cases "filepath_Abs env ?dir")
      case (Inl err)
      with na None assms show ?thesis by (auto simp: SkipDirs_shouldPassIssue_def)
    next
      case (Inr absDir)
      from shouldPassIssueDirs_result [of env p ?dir absDir]
      obtain p1 toPass where r: "SkipDirs_shouldPassIssueDirs env p ?dir absDir = Some (p1, toPass)"
        and f: "absArgsDirs p1 = absArgsDirs p" "skippedDirsCache p1 = skippedDirsCache p"
          "patterns p1 = patterns p"
          "\<forall>d. skippedDirs p d \<noteq> None \<longrightarrow> skippedDirs p1 d \<noteq> None"
        and t: "absDir \<in> set (absArgsDirs p) \<longrightarrow> toPass"
          "\<not> toPass \<longrightarrow> skippedDirs p1 ?dir \<noteq> None"
        by blast
      let ?p' = "p1\<lparr>skippedDirsCache := (skippedDirsCache p1)(?dir \<mapsto> toPass)\<rparr>"
      have res: "SkipDirs_shouldPassIssue env p i = Some (?p', toPass)"
        using na None Inr r by (simp add: SkipDirs_shouldPassIssue_def)
      have "skipInv env ?p'"
        unfolding skipInv_def
      proof (intro allI impI)
        fix dir
        assume c: "skippedDirsCache ?p' dir = Some False"
        show "skippedDirs ?p' dir \<noteq> None
              \<and> (\<exists>a. filepath_Abs env dir = Inr a \<and> a \<notin> set (absArgsDirs ?p'))"
        proof (cases "dir = ?dir")
          case True
          with c have "\<not> toPass" by simp
          with t Inr True f(1) show ?thesis by auto
        next
          case False
          with c f(2) have "skippedDirsCache p dir = Some False" by simp
          with assms f(1,4) show ?thesis unfolding skipInv_def by auto
        qed
      qed
      then have inv: "skipInv env ?p'" .
      have a: "absArgsDirs ?p' = absArgsDirs p" "patterns ?p' = patterns p"
        using f(1,3) by simp_all
      have "(\<exists>a. filepath_Abs env ?dir = Inr a \<and> a \<in> set (absArgsDirs p)) \<longrightarrow> toPass"
        using t(1) Inr by auto
      then show ?thesis
        by (intro exI [of _ ?p'] exI [of _ toPass]) (simp only: res inv a simp_thms)
    qed
  qed
qed

lemma filterIssues_result:
  "skipInv env p \<Longrightarrow>
     \<exists>p' out. filterIssues (SkipDirs_shouldPassIssue env) p issues = Some (p', out)
       \<and> set out \<subseteq> set issues
       \<and> (\<forall>i \<in> set issues.
             (\<exists>a. filepath_Abs env (filepath_Dir env (FilePath i)) = Inr a
                  \<and> a \<in> set (absArgsDirs p)) \<longrightarrow> i \<in> set out)"
proof (induction issues arbitrary: p)
  case Nil
  then show ?case by simp
next
  case (Cons i issues)
  from shouldPassIssue_result [OF Cons.prems, of i]
  obtain p1 toPass where s: "SkipDirs_shouldPassIssue env p i = Some (p1, toPass)"
    and inv: "skipInv env p1" and args: "absArgsDirs p1 = absArgsDirs p"
    and t: "(\<exists>a. filepath_Abs env (filepath_Dir env (FilePath i)) = Inr a
               \<and> a \<in> set (absArgsDirs p)) \<longrightarrow> toPass"
    by blast
  from Cons.IH [OF inv]
  obtain p' out where r: "filterIssues (SkipDirs_shouldPassIssue env) p1 issues = Some (p', out)"
    and sub: "set out \<subseteq> set issues"
    and keep: "\<forall>j \<in> set issues.
             (\<exists>a. filepath_Abs env (filepath_Dir env (FilePath j)) = Inr a
                  \<and> a \<in> set (absArgsDirs p1)) \<longrightarrow> j \<in> set out"
    by blast
  have "filterIssues (SkipDirs_shouldPassIssue env) p (i # issues)
      = Some (p', if toPass then i # out else out)"
    using s r by simp
  with sub keep t args show ?case by auto
qed

text \<open>
  The directory-exclusion stage never drops an issue whose directory, made absolute, is
  the directory of an analysis argument as \<open>NewSkipDirs\<close> takes it (the argument, or
  its parent when its last element is \<open>...\<close> or ends in the extension of Go files),
  whatever the patterns match; and the stage does not panic.
\<close>

theorem explicit_dir_is_never_skipped:
  assumes "NewSkipDirs env pats runArgs pfx = Inr p"
      and "arg \<in> set runArgs"
      and "filepath_Abs env (argDir env arg) = Inr a"
      and "filepath_Abs env (filepath_Dir env (FilePath i)) = Inr a"
      and "i \<in> set issues"
  shows "\<exists>p' out. SkipDirs_Process env p issues = Some (p', out) \<and> i \<in> set out"
proof -
  from assms(2) have "runArgs \<noteq> []" by auto
  with NewSkipDirs_fields(2) [OF assms(1)] assms(2,3)
  have a: "a \<in> set (absArgsDirs p)" by auto
  show ?thesis
  proof (cases "length (patterns p) = 0")
    case True
    with assms(5) show ?thesis by (simp add: SkipDirs_Process_def)
  next
    case False
    from filterIssues_result [OF NewSkipDirs_skipInv [OF assms(1)], of issues]
    obtain p' out where "filterIssues (SkipDirs_shouldPassIssue env) p issues = Some (p', out)"
      and "\<forall>j \<in> set issues.
             (\<exists>a. filepath_Abs env (filepath_Dir env (FilePath j)) = Inr a
                  \<and> a \<in> set (absArgsDirs p)) \<longrightarrow> j \<in> set out"
      by blast
    with False assms(4,5) a show ?thesis by (auto simp: SkipDirs_Process_def)
  qed
qed

lemmas skip_defs = NewSkipDirs_def SkipDirs_Process_def SkipDirs_shouldPassIssue_def
  SkipDirs_shouldPassIssueDirs_def countSkipped_def argDir_def filepath_Base_def
  example_environment_def example_skipDirs_def relative_Dir_def example_issue_def
  HasSuffix_def HasPrefix_def Contains_def suffix_to_prefix sublist_code Let_def

lemma NewSkipDirs_nats:
  "NewSkipDirs example_environment [''nats''] [''nats''] [] = Inr (example_skipDirs [''/work/nats''])"
  by (simp add: skip_defs)

text \<open>
  With the directory \<open>nats\<close> as the analysis argument and the pattern \<open>nats\<close>, the
  issue in \<open>nats\<close> is kept and the issue in \<open>vendor/nats\<close> is dropped.
\<close>

theorem explicit_dir_is_never_skipped_witness:
  "NewSkipDirs example_environment [''nats''] [''nats''] [] = Inr (example_skipDirs [''/work/nats''])
   \<and> map_option snd (SkipDirs_Process example_environment (example_skipDirs [''/work/nats''])
        [example_issue ''golint'' ''vendor/nats/conn.go'' 3,
         example_issue ''golint'' ''nats/conn.go'' 3])
     = Some [example_issue ''golint'' ''nats/conn.go'' 3]"
proof -
  let ?i = "example_issue ''golint'' ''nats/conn.go'' 3"
  let ?is = "[example_issue ''golint'' ''vendor/nats/conn.go'' 3, ?i]"
  have "filepath_Abs example_environment (argDir example_environment ''nats'') = Inr ''/work/nats''"
    by (simp add: skip_defs)
  moreover have "filepath_Abs example_environment
      (filepath_Dir example_environment (FilePath ?i)) = Inr ''/work/nats''"
    by (simp add: skip_defs)
  ultimately obtain p' out where
    "SkipDirs_Process example_environment (example_skipDirs [''/work/nats'']) ?is = Some (p', out)"
    "?i \<in> set out"
    using explicit_dir_is_never_skipped [OF NewSkipDirs_nats, of "''nats''" "''/work/nats''" ?i ?is]
    by auto
  moreover have "map_option snd (SkipDirs_Process example_environment
      (example_skipDirs [''/work/nats'']) ?is) = Some [?i]"
    by (simp add: skip_defs)
  ultimately show ?thesis using NewSkipDirs_nats by simp
qed

text \<open>
  Claim C9 at a directory whose name ends in \<open>.go\<close>. The user passes the directory
  \<open>nats.go\<close>; \<open>NewSkipDirs\<close> takes the argument for a Go file and keeps its parent, the
  working directory. The issue in \<open>nats.go/conn.go\<close> has the directory \<open>nats.go\<close>, which
  made absolute is the argument made absolute; the pattern \<open>nats\<close> matches it and the
  stage drops the issue.
\<close>

theorem dir_named_like_go_file_is_skipped:
  "filepath_Abs example_environment ''nats.go'' = Inr ''/work/nats.go''
   \<and> filepath_Abs example_environment
        (filepath_Dir example_environment
           (FilePath (example_issue ''golint'' ''nats.go/conn.go'' 3))) = Inr ''/work/nats.go''
   \<and> argDir example_environment ''nats.go'' = ''.''
   \<and> NewSkipDirs example_environment [''nats''] [''nats.go''] [] = Inr (example_skipDirs [''/work''])
   \<and> map_option snd (SkipDirs_Process example_environment (example_skipDirs [''/work''])
        [example_issue ''golint'' ''nats.go/conn.go'' 3])
     = Some []"
  by (simp add: skip_defs)

end
